theory Spec2Isabelle
  imports Main "HOL-Library.Sublist" "HOL-Library.Char_ord" "HOL-Library.List_Lexorder"
    "HOL-Library.AList" "HOL-Library.Multiset"
begin

section \<open>Text\<close>

text \<open>
  Python's \<open>str\<close> is modelled by \<open>string\<close>; a \<open>char\<close> stands for a code point below 256.
  Comparison of strings (\<open>sorted\<close>) is the lexicographic order on code points, which is the
  order of \<open>HOL-Library.List_Lexorder\<close> over \<open>HOL-Library.Char_ord\<close>.
\<close>

definition backslash :: char where
  "backslash = CHR 0x5C"

definition slash :: char where
  "slash = CHR ''/''"

text \<open>\<open>sep.join(lines)\<close>\<close>

fun join :: "string \<Rightarrow> string list \<Rightarrow> string" where
  "join sep [] = []"
| "join sep [x] = x"
| "join sep (x # y # ys) = x @ sep @ join sep (y # ys)"

text \<open>\<open>s.split(c)\<close> for a one-character separator; \<open>acc\<close> holds the current piece, reversed.\<close>

fun split_acc :: "char \<Rightarrow> string \<Rightarrow> string \<Rightarrow> string list" where
  "split_acc c acc [] = [rev acc]"
| "split_acc c acc (x # xs) =
     (if x = c then rev acc # split_acc c [] xs else split_acc c (x # acc) xs)"

definition split :: "char \<Rightarrow> string \<Rightarrow> string list" where
  "split c s = split_acc c [] s"

text \<open>\<open>s.replace(a, b)\<close> for one-character \<open>a\<close> and \<open>b\<close>.\<close>

definition replace_char :: "char \<Rightarrow> char \<Rightarrow> string \<Rightarrow> string" where
  "replace_char a b s = map (\<lambda>x. if x = a then b else x) s"

text \<open>
  A file opened in text mode is read with universal newlines: a carriage return followed by
  a line feed, and a carriage return alone, both arrive as one line feed.
\<close>

fun universal_newlines :: "string \<Rightarrow> string" where
  "universal_newlines [] = []"
| "universal_newlines [x] = [if x = CHR 0x0D then CHR 0x0A else x]"
| "universal_newlines (x # y # ys) =
     (if x = CHR 0x0D \<and> y = CHR 0x0A then CHR 0x0A # universal_newlines ys
      else if x = CHR 0x0D then CHR 0x0A # universal_newlines (y # ys)
      else x # universal_newlines (y # ys))"

section \<open>The regular expression of the patcher\<close>

text \<open>
  The pattern of \<open>replace_block_in_build\<close> and \<open>replace_block_in_build_paths\<close> is
  \<^verbatim>\<open>const\s+src_files\s*=\s*\[\_]\[\]const\s+u8\{[\s\S]*?\n\};\n\<close>.
  It is built from literals, greedy repetitions of \<open>\s\<close> and one lazy repetition of
  \<open>[\s\S]\<close>; \<open>re_item\<close> has exactly these forms. \<open>\s\<close> on a \<open>str\<close> pattern is
  \<open>str.isspace\<close>, which below 256 holds of the twelve code points listed.
\<close>

definition is_space :: "char \<Rightarrow> bool" where
  "is_space c \<longleftrightarrow> c \<in> set [CHR 0x09, CHR 0x0A, CHR 0x0B, CHR 0x0C, CHR 0x0D,
     CHR 0x1C, CHR 0x1D, CHR 0x1E, CHR 0x1F, CHR 0x20, CHR 0x85, CHR 0xA0]"

datatype cclass = Space | SpaceOrNot

fun in_class :: "cclass \<Rightarrow> char \<Rightarrow> bool" where
  "in_class Space c = is_space c"
| "in_class SpaceOrNot c = (is_space c \<or> \<not> is_space c)"

datatype re_item = Lit string | Plus cclass | Star cclass | LazyStar cclass

text \<open>
  Backtracking match of a pattern at the start of \<open>s\<close>; the result is the text left after
  the match. A greedy repetition takes a character first and gives it back when the rest of
  the pattern fails; a lazy one tries the rest of the pattern first.
\<close>

fun match :: "re_item list \<Rightarrow> string \<Rightarrow> string option" where
  "match [] s = Some s"
| "match (Lit l # r) s = (if prefix l s then match r (drop (length l) s) else None)"
| "match (Plus c # r) [] = None"
| "match (Plus c # r) (x # xs) = (if in_class c x then match (Star c # r) xs else None)"
| "match (Star c # r) [] = match r []"
| "match (Star c # r) (x # xs) =
     (if in_class c x
      then (case match (Star c # r) xs of Some t \<Rightarrow> Some t | None \<Rightarrow> match r (x # xs))
      else match r (x # xs))"
| "match (LazyStar c # r) [] = match r []"
| "match (LazyStar c # r) (x # xs) =
     (case match r (x # xs) of
        Some t \<Rightarrow> Some t
      | None \<Rightarrow> if in_class c x then match (LazyStar c # r) xs else None)"

definition src_files_re :: "re_item list" where
  "src_files_re =
     [Lit ''const'', Plus Space, Lit ''src_files'', Star Space, Lit ''='', Star Space,
      Lit ''[_][]const'', Plus Space, Lit ''u8{'', LazyStar SpaceOrNot, Lit ''\<newline>};\<newline>'']"

text \<open>
  \<open>re.subn(pattern, repl, s)\<close>: scan from the left, replace every non-overlapping match,
  count the replacements. \<open>f\<close> maps the matched text to its replacement. The pattern above
  contains literals, so it never matches the empty string; the branch for an empty match
  (replace, then step over one character) is not reached for it.
\<close>

fun subn :: "re_item list \<Rightarrow> (string \<Rightarrow> string) \<Rightarrow> string \<Rightarrow> string \<times> nat" where
  "subn re f s =
     (case match re s of
        Some rest \<Rightarrow>
          (if length rest < length s
           then (case subn re f rest of
                   (out, n) \<Rightarrow> (f (take (length s - length rest) s) @ out, Suc n))
           else (case s of
                   [] \<Rightarrow> (f [], Suc 0)
                 | x # xs \<Rightarrow> (case subn re f xs of (out, n) \<Rightarrow> (f [] @ x # out, Suc n))))
      | None \<Rightarrow>
          (case s of
             [] \<Rightarrow> ([], 0)
           | x # xs \<Rightarrow> (case subn re f xs of (out, n) \<Rightarrow> (x # out, n))))"

section \<open>Rendering\<close>

definition ZIG_ARRAY_HEADER :: string where
  "ZIG_ARRAY_HEADER = ''const src_files = [_][]const u8{''"

definition prefix_src :: string where
  "prefix_src = ''native/flecs/src/''"

text \<open>The group of an entry that starts with the prefix (lines 54 to 59 of the script).\<close>

definition group_of :: "string \<Rightarrow> string" where
  "group_of e =
     (let rel = drop (length prefix_src) e; parts = split slash rel
      in if length parts = 1 then ''core'' else hd parts)"

text \<open>
  \<open>groups.setdefault(group, []).append(e)\<close> on an insertion-ordered dictionary, kept as an
  association list in insertion order.
\<close>

fun setdefault_append :: "string \<Rightarrow> string \<Rightarrow> (string \<times> string list) list
    \<Rightarrow> (string \<times> string list) list" where
  "setdefault_append g e [] = [(g, [e])]"
| "setdefault_append g e ((k, v) # kvs) =
     (if k = g then (k, v @ [e]) # kvs else (k, v) # setdefault_append g e kvs)"

fun build_groups :: "(string \<times> string list) list \<Rightarrow> string list
    \<Rightarrow> (string \<times> string list) list" where
  "build_groups groups [] = groups"
| "build_groups groups (e # es) =
     (if \<not> prefix prefix_src e then build_groups groups es
      else build_groups (setdefault_append (group_of e) e groups) es)"

definition ordered_groups :: "(string \<times> string list) list \<Rightarrow> string list" where
  "ordered_groups groups =
     (if ''core'' \<in> set (map fst groups) then [''core''] else [])
     @ sort (filter (\<lambda>k. k \<noteq> ''core'') (map fst groups))"

text \<open>
  \<open>groups[gname]\<close>; every name of \<open>ordered_groups\<close> is a key, so the lookup of the script
  cannot raise, and the model gives the empty list for a missing key.
\<close>

definition group_entries :: "(string \<times> string list) list \<Rightarrow> string \<Rightarrow> string list" where
  "group_entries groups gname = (case map_of groups gname of Some ps \<Rightarrow> ps | None \<Rightarrow> [])"

definition group_lines :: "(string \<times> string list) list \<Rightarrow> string \<Rightarrow> string list" where
  \<open>group_lines groups gname =
     (''    // '' @ gname)
     # map (\<lambda>p. ''    "../../'' @ p @ ''",'') (sort (group_entries groups gname))
     @ [[]]\<close>

definition format_zig_array :: "string list \<Rightarrow> string" where
  \<open>format_zig_array entries =
     (let groups = build_groups [] entries
      in join ''\<newline>''
           ([ZIG_ARRAY_HEADER, ''    "../../native/flecs_helpers.c",'', []]
            @ concat (map (group_lines groups) (ordered_groups groups))
            @ [''};'']))\<close>

section \<open>Paths\<close>

text \<open>
  A \<open>pathlib\<close> path of the POSIX flavour: whether it is anchored at \<open>/\<close>, and its
  components. Components are plain names: \<open>..\<close> and symbolic links are not interpreted.
\<close>

datatype path = Path (is_abs: bool) (parts: "string list")

text \<open>\<open>p / name\<close> for a single component \<open>name\<close>.\<close>

definition child :: "path \<Rightarrow> string \<Rightarrow> path" where
  "child p name = Path (is_abs p) (parts p @ [name])"

text \<open>\<open>str(p)\<close>\<close>

definition str_path :: "path \<Rightarrow> string" where
  "str_path p =
     (if is_abs p then ''/'' @ join ''/'' (parts p)
      else if parts p = [] then ''.'' else join ''/'' (parts p))"

text \<open>
  \<open>SystemExit\<close> derives from \<open>BaseException\<close> only; the other errors are subclasses of
  \<open>Exception\<close>. \<open>OSError\<close> stands for any exception of a file operation (among them the
  Unicode errors of \<open>read_text\<close> and \<open>write_text\<close>) and carries the operation that raised
  it, so that the exception of one call is told from that of another. \<open>ReError\<close> stands for
  \<open>re.error\<close>.
\<close>

datatype file_op = OpReplace | OpReadText | OpWriteText | OpUnlink

datatype error =
    SystemExit string
  | OSError file_op
  | ValueError
  | ReError

fun is_Exception :: "error \<Rightarrow> bool" where
  "is_Exception (SystemExit msg) = False"
| "is_Exception (OSError op) = True"
| "is_Exception ValueError = True"
| "is_Exception ReError = True"

text \<open>\<open>p.relative_to(other)\<close>\<close>

definition relative_to :: "path \<Rightarrow> path \<Rightarrow> error + path" where
  "relative_to p other =
     (if is_abs p = is_abs other \<and> prefix (parts other) (parts p)
      then Inr (Path False (drop (length (parts other)) (parts p)))
      else Inl ValueError)"

text \<open>\<open>name.rfind(c)\<close>, the \<open>suffix\<close> property of a name, and \<open>p.with_suffix(suffix)\<close>.\<close>

definition rfind :: "char \<Rightarrow> string \<Rightarrow> int" where
  "rfind c s =
     (if c \<in> set s then int (length s) - 1 - int (length (takeWhile (\<lambda>x. x \<noteq> c) (rev s)))
      else - 1)"

definition suffix_of :: "string \<Rightarrow> string" where
  "suffix_of name =
     (let i = rfind (CHR ''.'') name
      in if 0 < i \<and> i < int (length name) - 1 then drop (nat i) name else [])"

definition with_suffix :: "path \<Rightarrow> string \<Rightarrow> error + path" where
  "with_suffix p suf =
     (if slash \<in> set suf then Inl ValueError
      else if (suf \<noteq> [] \<and> \<not> prefix ''.'' suf) \<or> suf = ''.'' then Inl ValueError
      else (case rev (parts p) of
              [] \<Rightarrow> Inl ValueError
            | name # up \<Rightarrow>
                if name = [] then Inl ValueError
                else (let old_suffix = suffix_of name;
                          name' = (if old_suffix = [] then name @ suf
                                   else take (length name - length old_suffix) name @ suf)
                      in Inr (Path (is_abs p) (rev up @ [name'])))))"

section \<open>The file system\<close>

text \<open>
  A directory lists its children in the order in which the operating system enumerates
  them, which is not specified. A world is the tree below \<open>/\<close> and the working directory.
\<close>

datatype fsnode = File string | Dir "(string \<times> fsnode) list"

record world =
  tree :: fsnode
  cwd :: "string list"

definition resolve :: "world \<Rightarrow> path \<Rightarrow> string list" where
  "resolve w p = (if is_abs p then parts p else cwd w @ parts p)"

fun lookup :: "fsnode \<Rightarrow> string list \<Rightarrow> fsnode option" where
  "lookup n [] = Some n"
| "lookup (File c) (x # xs) = None"
| "lookup (Dir kids) (x # xs) =
     (case map_of kids x of None \<Rightarrow> None | Some k \<Rightarrow> lookup k xs)"

text \<open>Set (\<open>Some\<close>) or remove (\<open>None\<close>) the node at a path whose parent is a directory.\<close>

fun update_at :: "string list \<Rightarrow> fsnode option \<Rightarrow> fsnode \<Rightarrow> fsnode" where
  "update_at [] v t = t"
| "update_at ps v (File c) = File c"
| "update_at [x] v (Dir kids) =
     Dir (case v of Some n \<Rightarrow> AList.update x n kids | None \<Rightarrow> AList.delete x kids)"
| "update_at (x # y # ys) v (Dir kids) =
     (case map_of kids x of
        None \<Rightarrow> Dir kids
      | Some k \<Rightarrow> Dir (AList.update x (update_at (y # ys) v k) kids))"

definition path_exists :: "world \<Rightarrow> path \<Rightarrow> bool" where
  "path_exists w p \<longleftrightarrow> lookup (tree w) (resolve w p) \<noteq> None"

text \<open>
  Failures of the operating system that the tree does not determine (permissions, a full
  disk, undecodable bytes) are given to a run from outside: whether the rename, the read
  and the unlink fail, and whether the write succeeds, fails before the file is opened, or
  fails after the file was created and the first \<open>n\<close> characters were written.
\<close>

datatype write_fault = WriteOk | WriteFailsUnopened | WriteFailsAfter nat

record faults =
  replace_fails :: bool
  read_fails :: bool
  write_fault :: write_fault
  unlink_fails :: bool

definition no_faults :: faults where
  "no_faults = \<lparr>replace_fails = False, read_fails = False, write_fault = WriteOk,
     unlink_fails = False\<rparr>"

definition is_dir_at :: "fsnode \<Rightarrow> string list \<Rightarrow> bool" where
  "is_dir_at t ps = (case lookup t ps of Some (Dir kids) \<Rightarrow> True | _ \<Rightarrow> False)"

text \<open>\<open>src.replace(dst)\<close>, that is \<open>os.replace\<close>.\<close>

definition replace_path :: "faults \<Rightarrow> world \<Rightarrow> path \<Rightarrow> path \<Rightarrow> error + world" where
  "replace_path flt w src dst =
     (let s = resolve w src; d = resolve w dst; t = tree w
      in if replace_fails flt then Inl (OSError OpReplace)
         else (case lookup t s of
                 None \<Rightarrow> Inl (OSError OpReplace)
               | Some n \<Rightarrow>
                   if s = d then Inr w
                   else if prefix s d \<or> d = [] \<or> \<not> is_dir_at t (butlast d) then Inl (OSError OpReplace)
                   else (case (n, lookup t d) of
                           (File c, Some (Dir kids)) \<Rightarrow> Inl (OSError OpReplace)
                         | (Dir kids, Some (File c)) \<Rightarrow> Inl (OSError OpReplace)
                         | (Dir kids, Some (Dir (k # ks))) \<Rightarrow> Inl (OSError OpReplace)
                         | _ \<Rightarrow> Inr (w\<lparr>tree := update_at d (Some n) (update_at s None t)\<rparr>))))"

text \<open>
  \<open>p.read_text(encoding='utf-8')\<close>: the file is opened in text mode, so the text returned
  is the stored text with universal newlines.
\<close>

definition read_text :: "faults \<Rightarrow> world \<Rightarrow> path \<Rightarrow> error + string" where
  "read_text flt w p =
     (if read_fails flt then Inl (OSError OpReadText)
      else (case lookup (tree w) (resolve w p) of
              Some (File c) \<Rightarrow> Inr (universal_newlines c)
            | _ \<Rightarrow> Inl (OSError OpReadText)))"

text \<open>
  \<open>p.write_text(txt, encoding='utf-8')\<close>: the result and the world it leaves. On POSIX a
  line feed is written as it is.
\<close>

definition write_text :: "faults \<Rightarrow> world \<Rightarrow> path \<Rightarrow> string \<Rightarrow> (error + unit) \<times> world" where
  "write_text flt w p txt =
     (let ps = resolve w p; t = tree w
      in if ps = [] \<or> \<not> is_dir_at t (butlast ps) \<or> is_dir_at t ps then (Inl (OSError OpWriteText), w)
         else (case write_fault flt of
                 WriteOk \<Rightarrow> (Inr (), w\<lparr>tree := update_at ps (Some (File txt)) t\<rparr>)
               | WriteFailsUnopened \<Rightarrow> (Inl (OSError OpWriteText), w)
               | WriteFailsAfter n \<Rightarrow>
                   (Inl (OSError OpWriteText), w\<lparr>tree := update_at ps (Some (File (take n txt))) t\<rparr>)))"

text \<open>\<open>p.unlink()\<close>\<close>

definition unlink :: "faults \<Rightarrow> world \<Rightarrow> path \<Rightarrow> error + world" where
  "unlink flt w p =
     (if unlink_fails flt then Inl (OSError OpUnlink)
      else (case lookup (tree w) (resolve w p) of
              Some (File c) \<Rightarrow> Inr (w\<lparr>tree := update_at (resolve w p) None (tree w)\<rparr>)
            | _ \<Rightarrow> Inl (OSError OpUnlink)))"

section \<open>Discovery\<close>

text \<open>
  \<open>root.rglob('*.c')\<close>: the names matching \<open>*.c\<close> are those ending in \<open>.c\<close>; every entry of a
  directory is tested, files and directories alike; then the subdirectories are searched.
  \<open>walk\<close> gives the components below the start node.
\<close>

definition matches_c :: "string \<Rightarrow> bool" where
  "matches_c name \<longleftrightarrow> suffix ''.c'' name"

fun walk :: "fsnode \<Rightarrow> string list list" where
  "walk (File c) = []"
| "walk (Dir kids) =
     map (\<lambda>k. [fst k]) (filter (\<lambda>k. matches_c (fst k)) kids)
     @ concat (map (\<lambda>k. map ((#) (fst k)) (walk (snd k))) kids)"

definition rglob_c :: "world \<Rightarrow> path \<Rightarrow> path list" where
  "rglob_c w root =
     (case lookup (tree w) (resolve w root) of
        None \<Rightarrow> []
      | Some n \<Rightarrow> map (\<lambda>rel. Path (is_abs root) (parts root @ rel)) (walk n))"

text \<open>
  \<open>find_c_files\<close>. \<open>REPO_ROOT\<close>, the resolved parent of the directory of the script, is an
  absolute path; it is given by its components. Paths sort by their components.
\<close>

definition entry_of :: "string list \<Rightarrow> path \<Rightarrow> string" where
  "entry_of REPO_ROOT p =
     (let rel = (case relative_to p (Path True REPO_ROOT) of Inr r \<Rightarrow> r | Inl e \<Rightarrow> p)
      in replace_char backslash slash (str_path rel))"

definition find_c_files :: "string list \<Rightarrow> world \<Rightarrow> path \<Rightarrow> error + string list" where
  "find_c_files REPO_ROOT w root =
     (if \<not> path_exists w root
      then Inl (SystemExit (''Source directory not found: '' @ str_path root))
      else Inr (map (entry_of REPO_ROOT) (sort_key parts (rglob_c w root))))"

section \<open>The patcher\<close>

text \<open>
  The call \<open>re.subn(pattern, new_block + "\n\n", txt)\<close> of both patcher functions. A
  replacement string without a backslash is used as it is. One with a backslash is first
  compiled by the template parser of the \<open>re\<close> library, which is not part of the script:
  \<open>tmpl\<close> stands for it, giving an error or the function from a match to its replacement.
\<close>

definition subn_src_files :: "(string \<Rightarrow> error + (string \<Rightarrow> string)) \<Rightarrow> string \<Rightarrow> string
    \<Rightarrow> error + string \<times> nat" where
  "subn_src_files tmpl new_block txt =
     (let repl = new_block @ ''\<newline>\<newline>''
      in case (if backslash \<in> set repl then tmpl repl else Inr (\<lambda>m. repl)) of
           Inl e \<Rightarrow> Inl e
         | Inr f \<Rightarrow> Inr (subn src_files_re f txt))"

definition not_located :: error where
  "not_located = SystemExit ''Failed to locate src_files block in build.zig''"


definition replace_block_in_build_paths :: "(string \<Rightarrow> error + (string \<Rightarrow> string)) \<Rightarrow> faults
    \<Rightarrow> world \<Rightarrow> path \<Rightarrow> path \<Rightarrow> string \<Rightarrow> (error + unit) \<times> world" where
  "replace_block_in_build_paths tmpl flt w input_path output_path new_block =
     (case read_text flt w input_path of
        Inl e \<Rightarrow> (Inl e, w)
      | Inr txt \<Rightarrow>
          (case subn_src_files tmpl new_block txt of
             Inl e \<Rightarrow> (Inl e, w)
           | Inr (new_txt, n) \<Rightarrow>
               if n = 0 then (Inl not_located, w)
               else write_text flt w output_path new_txt))"

section \<open>The orchestrator\<close>

text \<open>
  A run of \<open>main\<close> gives its result (\<open>Inl\<close> the error that ends the process), the lines it
  printed, and the world it leaves.
\<close>

record run =
  result :: "error + unit"
  printed :: "string list"
  world_after :: world

text \<open>
  The process ends with status 0 when \<open>main\<close> returns; with status 1 on \<open>SystemExit\<close> with a
  message and on an exception that nothing catches.
\<close>

fun exit_status :: "error + unit \<Rightarrow> nat" where
  "exit_status (Inr u) = 0"
| "exit_status (Inl e) = 1"

record args =
  root :: path
  apply_flag :: bool

text \<open>The \<open>try\<close> statement of \<open>main\<close> (lines 127 to 137).\<close>

definition try_patch :: "(string \<Rightarrow> error + (string \<Rightarrow> string)) \<Rightarrow> faults \<Rightarrow> world
    \<Rightarrow> path \<Rightarrow> path \<Rightarrow> path \<Rightarrow> string \<Rightarrow> string list \<Rightarrow> run" where
  "try_patch tmpl flt w src_input build_path backup generated out =
     (case replace_block_in_build_paths tmpl flt w src_input build_path generated of
        (Inr u, w') \<Rightarrow>
          \<lparr>result = Inr (),
           printed = out @ [''Applied updated src_files to '' @ str_path build_path
                            @ '' (backup at '' @ str_path backup @ '')''],
           world_after = w'\<rparr>
      | (Inl e, w') \<Rightarrow>
          if is_Exception e
          then (if path_exists w' build_path
                then (case unlink flt w' build_path of
                        Inr w'' \<Rightarrow> \<lparr>result = Inl e, printed = out, world_after = w''\<rparr>
                      | Inl e' \<Rightarrow> \<lparr>result = Inl e, printed = out, world_after = w'\<rparr>)
                else \<lparr>result = Inl e, printed = out, world_after = w'\<rparr>)
          else \<lparr>result = Inl e, printed = out, world_after = w'\<rparr>)"

definition build_path_of :: "path \<Rightarrow> path" where
  "build_path_of r = child (child (child r ''src'') ''Flecs.NET.Native'') ''build.zig''"

definition source_root_of :: "path \<Rightarrow> path" where
  "source_root_of r = child (child (child r ''native'') ''flecs'') ''src''"

definition main :: "string list \<Rightarrow> (string \<Rightarrow> error + (string \<Rightarrow> string)) \<Rightarrow> faults \<Rightarrow> args
    \<Rightarrow> world \<Rightarrow> run" where
  "main REPO_ROOT tmpl flt a w =
     (case find_c_files REPO_ROOT w (source_root_of (root a)) of
        Inl e \<Rightarrow> \<lparr>result = Inl e, printed = [], world_after = w\<rparr>
      | Inr entries \<Rightarrow>
          (let generated = format_zig_array entries; out = [generated]
           in if \<not> apply_flag a then \<lparr>result = Inr (), printed = out, world_after = w\<rparr>
              else (let build_path = build_path_of (root a)
                    in case with_suffix build_path ''.zig.bak'' of
                         Inl e \<Rightarrow> \<lparr>result = Inl e, printed = out, world_after = w\<rparr>
                       | Inr backup \<Rightarrow>
                           if path_exists w build_path
                           then (case replace_path flt w build_path backup of
                                   Inl e \<Rightarrow> \<lparr>result = Inl e, printed = out, world_after = w\<rparr>
                                 | Inr w' \<Rightarrow>
                                     try_patch tmpl flt w' backup build_path backup generated out)
                           else if path_exists w backup
                           then try_patch tmpl flt w backup build_path backup generated out
                           else \<lparr>result = Inl (SystemExit (''Neither '' @ str_path build_path
                                            @ '' nor '' @ str_path backup
                                            @ '' exist; cannot apply'')),
                                 printed = out, world_after = w\<rparr>)))"

text \<open>The backup path that \<open>main\<close> computes from the build path (see \<open>with_suffix_build\<close>).\<close>

definition backup_path_of :: "path \<Rightarrow> path" where
  "backup_path_of r = child (child (child r ''src'') ''Flecs.NET.Native'') ''build.zig.bak''"

section \<open>Directory trees\<close>

text \<open>
  In a directory of a real file system the names are distinct. \<open>no_c_dirs\<close> holds of a tree
  in which no directory has a name ending in \<open>.c\<close>.
\<close>

fun wf_node :: "fsnode \<Rightarrow> bool" where
  "wf_node (File c) = True"
| "wf_node (Dir kids) = (distinct (map fst kids) \<and> (\<forall>k\<in>set kids. wf_node (snd k)))"

fun is_file :: "fsnode \<Rightarrow> bool" where
  "is_file (File c) = True"
| "is_file (Dir kids) = False"

fun no_c_dirs :: "fsnode \<Rightarrow> bool" where
  "no_c_dirs (File c) = True"
| "no_c_dirs (Dir kids) =
     (\<forall>k\<in>set kids. (matches_c (fst k) \<longrightarrow> is_file (snd k)) \<and> no_c_dirs (snd k))"

text \<open>
  Two trees are the same directory tree when they differ at most in the order in which the
  directories list their children.
\<close>

inductive same_tree :: "fsnode \<Rightarrow> fsnode \<Rightarrow> bool" where
  same_File: "same_tree (File c) (File c)"
| same_Dir: "list_all2 (\<lambda>k k'. fst k = fst k' \<and> same_tree (snd k) (snd k')) kids kids1
     \<Longrightarrow> mset kids1 = mset kids' \<Longrightarrow> distinct (map fst kids)
     \<Longrightarrow> same_tree (Dir kids) (Dir kids')"

text \<open>The block with no group, and the block of the group ordering example.\<close>

definition helper_only_block :: string where
  \<open>helper_only_block =
     join ''\<newline>'' [ZIG_ARRAY_HEADER, ''    "../../native/flecs_helpers.c",'', [], ''};'']\<close>



section \<open>Sample inputs\<close>

text \<open>
  A small world for the examples: the repository \<open>/repo\<close> with one source file and a
  \<open>build.zig\<close> of the given content; the working directory is \<open>/repo\<close>. The template
  parser of the examples rejects every replacement string that reaches it.
\<close>

definition sample_world :: "string \<Rightarrow> world" where
  "sample_world content =
     \<lparr>tree = Dir [(''repo'', Dir
        [(''src'', Dir [(''Flecs.NET.Native'', Dir [(''build.zig'', File content)])]),
         (''native'', Dir [(''flecs'', Dir [(''src'', Dir [(''a.c'', File [])])])])])],
      cwd = [''repo'']\<rparr>"

definition sample_args :: args where
  "sample_args = \<lparr>root = Path True [''repo''], apply_flag = True\<rparr>"

definition tmpl_reject :: "string \<Rightarrow> error + (string \<Rightarrow> string)" where
  "tmpl_reject repl = Inl ReError"

definition sample_build :: "string list" where
  "sample_build = [''repo'', ''src'', ''Flecs.NET.Native'', ''build.zig'']"

definition sample_backup :: "string list" where
  "sample_backup = [''repo'', ''src'', ''Flecs.NET.Native'', ''build.zig.bak'']"

definition cr_text :: string where
  "cr_text = [CHR ''h'', CHR 0x0D, CHR ''i'']"

text \<open>The empty block, and the empty block stored with carriage returns before the line feeds.\<close>

definition crlf_block :: string where
  "crlf_block = ''const src_files = [_][]const u8{'' @ [CHR 0x0D, CHR 0x0A] @ ''};''
     @ [CHR 0x0D, CHR 0x0A]"

definition empty_block :: string where
  "empty_block = ''const src_files = [_][]const u8{\<newline>};\<newline>''"

text \<open>A run in which the write of the target breaks after three characters.\<close>

definition write_breaks :: faults where
  "write_breaks = \<lparr>replace_fails = False, read_fails = False, write_fault = WriteFailsAfter 3,
     unlink_fails = False\<rparr>"

text \<open>A run in which the write breaks in the same way and the unlink fails as well.\<close>

definition write_unlink_break :: faults where
  "write_unlink_break = \<lparr>replace_fails = False, read_fails = False,
     write_fault = WriteFailsAfter 3, unlink_fails = True\<rparr>"

text \<open>A world whose source directory lists the given children.\<close>

definition listing_world :: "(string \<times> fsnode) list \<Rightarrow> world" where
  "listing_world kids =
     \<lparr>tree = Dir [(''repo'', Dir [(''native'', Dir [(''flecs'', Dir [(''src'', Dir kids)])])])],
      cwd = [''repo'']\<rparr>"

definition print_args :: args where
  "print_args = \<lparr>root = Path True [''repo''], apply_flag = False\<rparr>"

section \<open>Facts about the file tree\<close>

lemma lookup_append: "lookup t (ps @ qs) = (case lookup t ps of None \<Rightarrow> None | Some n \<Rightarrow> lookup n qs)"
  by (induction t ps rule: lookup.induct) (auto split: option.splits)

lemma lookup_snoc_is_dir: "lookup t (ps @ [x]) = Some n \<Longrightarrow> is_dir_at t ps"
  by (cases "lookup t ps") (auto simp: lookup_append is_dir_at_def split: fsnode.splits option.splits)

lemma lookup_update_other:
  "\<not> prefix p q \<Longrightarrow> \<not> prefix q p \<Longrightarrow> lookup (update_at p v t) q = lookup t q"
proof (induction p v t arbitrary: q rule: update_at.induct)
  case (1 v t)
  then show ?case by simp
next
  case (2 x xs v c)
  then show ?case by simp
next
  case (3 x v kids)
  then show ?case
    by (cases q) (auto simp: update_conv' delete_conv' split: option.splits)
next
  case (4 x y ys v kids)
  then show ?case
    by (cases q) (auto simp: update_conv' split: option.splits)
qed

lemma lookup_update_same:
  "p \<noteq> [] \<Longrightarrow> is_dir_at t (butlast p) \<Longrightarrow> lookup (update_at p v t) p = v"
proof (induction p v t rule: update_at.induct)
  case (1 v t)
  then show ?case by simp
next
  case (2 x xs v c)
  then show ?case by (simp add: is_dir_at_def split: if_splits)
next
  case (3 x v kids)
  then show ?case by (auto simp: update_conv' delete_conv' split: option.splits)
next
  case (4 x y ys v kids)
  then show ?case
    by (auto simp: update_conv' is_dir_at_def split: option.splits fsnode.splits)
qed

lemma is_dir_at_Cons:
  "is_dir_at (Dir kids) (x # xs) = (case map_of kids x of None \<Rightarrow> False | Some k \<Rightarrow> is_dir_at k xs)"
  by (simp add: is_dir_at_def split: option.splits)

lemma is_dir_at_File: "is_dir_at (File c) ps = False"
  by (cases ps) (simp_all add: is_dir_at_def)

lemma is_dir_at_Nil: "is_dir_at (Dir kids) [] = True"
  by (simp add: is_dir_at_def)

lemma is_dir_update_prefix:
  "strict_prefix q p \<Longrightarrow> is_dir_at t q \<Longrightarrow> is_dir_at (update_at p v t) q"
proof (induction p v t arbitrary: q rule: update_at.induct)
  case (1 v t)
  then show ?case by simp
next
  case (2 x xs v c)
  then show ?case by simp
next
  case (3 x v kids)
  then show ?case by (cases q) (auto simp: is_dir_at_Nil strict_prefix_def)
next
  case (4 x y ys v kids)
  show ?case
  proof (cases q)
    case Nil
    then show ?thesis by (auto simp: is_dir_at_Nil split: option.splits)
  next
    case (Cons z zs)
    with 4(2) have zx: "z = x" and sp: "strict_prefix zs (y # ys)"
      by (auto simp: strict_prefix_def)
    from 4(3) Cons zx obtain k where k: "map_of kids x = Some k" and d: "is_dir_at k zs"
      by (auto simp: is_dir_at_Cons split: option.splits)
    from 4(1)[OF k sp d] show ?thesis
      using Cons zx k by (simp add: is_dir_at_Cons update_conv')
  qed
qed

section \<open>Missing source directory\<close>

text \<open>
  C8. If the source root \<open>root/native/flecs/src\<close> does not exist, the run ends with the
  error "Source directory not found", the exit status is 1, nothing was printed and the
  file system is as it was.
\<close>

theorem missing_source_fails_closed:
  assumes "\<not> path_exists w (source_root_of (root a))"
  shows "find_c_files REPO_ROOT w (source_root_of (root a))
           = Inl (SystemExit (''Source directory not found: '' @ str_path (source_root_of (root a))))
         \<and> result (main REPO_ROOT tmpl flt a w)
           = Inl (SystemExit (''Source directory not found: '' @ str_path (source_root_of (root a))))
         \<and> exit_status (result (main REPO_ROOT tmpl flt a w)) = 1
         \<and> printed (main REPO_ROOT tmpl flt a w) = []
         \<and> world_after (main REPO_ROOT tmpl flt a w) = w"
  using assms by (simp add: main_def find_c_files_def)

theorem missing_source_fails_closed_witness:
  "\<not> path_exists \<lparr>tree = Dir [], cwd = []\<rparr> (source_root_of (Path True [''repo'']))
   \<and> result (main [''repo''] (\<lambda>r. Inl ReError) no_faults
        \<lparr>root = Path True [''repo''], apply_flag = True\<rparr> \<lparr>tree = Dir [], cwd = []\<rparr>)
      = Inl (SystemExit ''Source directory not found: /repo/native/flecs/src'')
   \<and> world_after (main [''repo''] (\<lambda>r. Inl ReError) no_faults
        \<lparr>root = Path True [''repo''], apply_flag = True\<rparr> \<lparr>tree = Dir [], cwd = []\<rparr>)
      = \<lparr>tree = Dir [], cwd = []\<rparr>"
proof -
  have h: "\<not> path_exists \<lparr>tree = Dir [], cwd = []\<rparr> (source_root_of (Path True [''repo'']))"
    by (simp add: path_exists_def source_root_of_def child_def resolve_def)
  have s: "str_path (source_root_of (Path True [''repo''])) = ''/repo/native/flecs/src''"
    by (simp add: str_path_def source_root_of_def child_def)
  show ?thesis
    using h s missing_source_fails_closed [of "\<lparr>tree = Dir [], cwd = []\<rparr>"
        "\<lparr>root = Path True [''repo''], apply_flag = True\<rparr>" "[''repo'']" "\<lambda>r. Inl ReError" no_faults]
    by simp
qed

section \<open>Facts about paths, moves and rendering\<close>

lemma with_suffix_build: "with_suffix (build_path_of r) ''.zig.bak'' = Inr (backup_path_of r)"
  by (simp add: with_suffix_def build_path_of_def backup_path_of_def child_def slash_def
      suffix_of_def rfind_def)

lemma resolve_child: "resolve w (child p x) = resolve w p @ [x]"
  by (simp add: resolve_def child_def)

lemma resolve_build: "resolve w (build_path_of r) = resolve w r @ [''src'', ''Flecs.NET.Native''] @ [''build.zig'']"
  by (simp add: build_path_of_def resolve_child)

lemma resolve_backup: "resolve w (backup_path_of r) = resolve w r @ [''src'', ''Flecs.NET.Native''] @ [''build.zig.bak'']"
  by (simp add: backup_path_of_def resolve_child)

lemma resolve_source: "resolve w (source_root_of r) = resolve w r @ [''native'', ''flecs'', ''src'']"
  by (simp add: source_root_of_def resolve_child)

lemma resolve_tree_update [simp]: "resolve (w\<lparr>tree := t\<rparr>) p = resolve w p"
  by (simp add: resolve_def)

lemma moved_tree:
  fixes u v :: "fsnode option"
  assumes d: "is_dir_at t D" and xy: "x \<noteq> y"
  defines "t' \<equiv> update_at (D @ [y]) v (update_at (D @ [x]) u t)"
  shows "lookup t' (D @ [y]) = v" "lookup t' (D @ [x]) = u"
    "\<not> prefix (D @ [x]) q \<Longrightarrow> \<not> prefix q (D @ [x]) \<Longrightarrow> \<not> prefix (D @ [y]) q \<Longrightarrow> \<not> prefix q (D @ [y])
      \<Longrightarrow> lookup t' q = lookup t q"
    "is_dir_at t' D"
proof -
  have sx: "strict_prefix D (D @ [x])" and sy: "strict_prefix D (D @ [y])"
    by (simp_all add: strict_prefix_def)
  have d1: "is_dir_at (update_at (D @ [x]) u t) D"
    using is_dir_update_prefix [OF sx d] .
  show "lookup t' (D @ [y]) = v"
    unfolding t'_def using lookup_update_same [of "D @ [y]" "update_at (D @ [x]) u t" v] d1 by simp
  have inc: "\<not> prefix (D @ [y]) (D @ [x])" "\<not> prefix (D @ [x]) (D @ [y])"
    using xy by auto
  show "lookup t' (D @ [x]) = u"
    unfolding t'_def using lookup_update_other [OF inc] lookup_update_same [of "D @ [x]" t u] d
    by simp
  show "is_dir_at t' D"
    unfolding t'_def using is_dir_update_prefix [OF sy d1] .
  show "lookup t' q = lookup t q"
    if "\<not> prefix (D @ [x]) q" "\<not> prefix q (D @ [x])" "\<not> prefix (D @ [y]) q" "\<not> prefix q (D @ [y])"
    unfolding t'_def using that by (simp add: lookup_update_other)
qed

lemma replace_path_file:
  assumes "\<not> replace_fails flt"
    and "lookup (tree w) (resolve w src) = Some (File c)"
    and "resolve w src = D @ [x]" and "resolve w dst = D @ [y]" and "x \<noteq> y"
    and "\<not> is_dir_at (tree w) (D @ [y])"
  shows "replace_path flt w src dst
    = Inr (w\<lparr>tree := update_at (D @ [y]) (Some (File c)) (update_at (D @ [x]) None (tree w))\<rparr>)"
proof -
  have "is_dir_at (tree w) D"
    using assms(2,3) lookup_snoc_is_dir [of "tree w" D x] by simp
  then show ?thesis
    using assms
    by (auto simp: replace_path_def Let_def is_dir_at_def split: option.splits fsnode.splits list.splits)
qed

lemma subn_no_match:
  "\<forall>i\<le>length s. match re (drop i s) = None \<Longrightarrow> subn re f s = (s, 0)"
proof (induction s)
  case Nil
  then show ?case by simp
next
  case (Cons x xs)
  from Cons.prems have m0: "match re (x # xs) = None" by (metis drop0 le0)
  have "\<forall>i\<le>length xs. match re (drop i xs) = None"
  proof (intro allI impI)
    fix i assume "i \<le> length xs"
    then have "Suc i \<le> length (x # xs)" by simp
    with Cons.prems have "match re (drop (Suc i) (x # xs)) = None" by blast
    then show "match re (drop i xs) = None" by simp
  qed
  with Cons.IH have "subn re f xs = (xs, 0)" by simp
  with m0 show ?case by simp
qed

lemma set_join: "set (join sep ls) \<subseteq> set sep \<union> \<Union>(set ` set ls)"
  by (induction sep ls rule: join.induct) auto

lemma join_avoids:
  "c \<notin> set sep \<Longrightarrow> \<forall>l\<in>set ls. c \<notin> set l \<Longrightarrow> c \<notin> set (join sep ls)"
  using set_join [of sep ls] by blast

lemma split_acc_sets: "p \<in> set (split_acc c acc s) \<Longrightarrow> set p \<subseteq> set acc \<union> set s"
proof (induction s arbitrary: acc)
  case Nil
  then show ?case by simp
next
  case (Cons x xs)
  show ?case
  proof (cases "x = c")
    case True
    with Cons.prems have "p = rev acc \<or> p \<in> set (split_acc c [] xs)" by simp
    with Cons.IH [of "[]"] show ?thesis by auto
  next
    case False
    with Cons.prems have "p \<in> set (split_acc c (x # acc) xs)" by simp
    with Cons.IH [of "x # acc"] show ?thesis by auto
  qed
qed

lemma split_acc_nonempty: "split_acc c acc s \<noteq> []"
  by (induction s arbitrary: acc) auto

lemma group_of_chars: "set (group_of e) \<subseteq> set e \<union> set ''core''"
proof -
  let ?ps = "split slash (drop (length prefix_src) e)"
  have ne: "?ps \<noteq> []" by (simp add: split_def split_acc_nonempty)
  then have "hd ?ps \<in> set ?ps" by simp
  then have "set (hd ?ps) \<subseteq> set (drop (length prefix_src) e)"
    using split_acc_sets [of "hd ?ps" slash "[]"] by (simp add: split_def)
  also have "\<dots> \<subseteq> set e" by (rule set_drop_subset)
  finally show ?thesis by (auto simp: group_of_def Let_def)
qed

lemma keys_setdefault:
  "map fst (setdefault_append g e al) = (if g \<in> fst ` set al then map fst al else map fst al @ [g])"
  by (induction g e al rule: setdefault_append.induct) auto

lemma group_entries_setdefault:
  "group_entries (setdefault_append g e al) k = group_entries al k @ (if k = g then [e] else [])"
  by (induction g e al rule: setdefault_append.induct) (auto simp: group_entries_def split: option.splits)

lemma group_entries_build:
  "group_entries (build_groups al es) g
     = group_entries al g @ filter (\<lambda>e. prefix prefix_src e \<and> group_of e = g) es"
  by (induction al es rule: build_groups.induct) (auto simp: group_entries_setdefault)

lemma group_entries_build_Nil:
  "group_entries (build_groups [] es) g = filter (\<lambda>e. prefix prefix_src e \<and> group_of e = g) es"
proof -
  have "group_entries [] g = []" by (simp add: group_entries_def)
  then show ?thesis using group_entries_build [of "[]" es g] by simp
qed

lemma keys_build:
  "set (map fst (build_groups al es))
     = set (map fst al) \<union> group_of ` {e \<in> set es. prefix prefix_src e}"
  by (induction al es rule: build_groups.induct) (auto simp: keys_setdefault)


lemma ordered_groups_keys: "set (ordered_groups al) \<subseteq> set (map fst al)"
  by (auto simp: ordered_groups_def)

lemma format_no_backslash:
  assumes "\<forall>e\<in>set es. backslash \<notin> set e"
  shows "backslash \<notin> set (format_zig_array es)"
proof -
  let ?G = "build_groups [] es"
  have keys: "backslash \<notin> set g" if "g \<in> set (ordered_groups ?G)" for g
  proof -
    from that ordered_groups_keys have "g \<in> set (map fst ?G)" by blast
    then have "g \<in> group_of ` {e \<in> set es. prefix prefix_src e}"
      unfolding keys_build by simp
    then obtain e where "e \<in> set es" "g = group_of e" by auto
    with assms group_of_chars [of e] show ?thesis by (auto simp: backslash_def)
  qed
  have ents: "backslash \<notin> set p" if "p \<in> set (group_entries ?G g)" for p g
    using that assms by (auto simp: group_entries_build_Nil)
  have gl: "backslash \<notin> set l" if "g \<in> set (ordered_groups ?G)" "l \<in> set (group_lines ?G g)" for g l
    using that keys [of g] ents [of _ g] by (auto simp: group_lines_def backslash_def)
  have fixed: "backslash \<notin> set ZIG_ARRAY_HEADER"
    \<open>backslash \<notin> set ''    "../../native/flecs_helpers.c",''\<close> "backslash \<notin> set ''};''"
    by (simp_all add: ZIG_ARRAY_HEADER_def backslash_def)
  have "\<forall>l\<in>set (concat (map (group_lines ?G) (ordered_groups ?G))). backslash \<notin> set l"
    using gl by auto
  with fixed have all: \<open>\<forall>l\<in>set ([ZIG_ARRAY_HEADER, ''    "../../native/flecs_helpers.c",'', []]
            @ concat (map (group_lines ?G) (ordered_groups ?G)) @ [''};'']). backslash \<notin> set l\<close>
    by (simp add: ball_Un)
  have "backslash \<notin> set ''\<newline>''" by (simp add: backslash_def)
  from join_avoids [OF this all] show ?thesis
    unfolding format_zig_array_def Let_def .
qed

lemma entry_no_backslash: "backslash \<notin> set (entry_of REPO_ROOT p)"
  by (auto simp: entry_of_def replace_char_def backslash_def slash_def Let_def)

lemma find_c_files_no_backslash:
  "find_c_files REPO_ROOT w r = Inr es \<Longrightarrow> \<forall>e\<in>set es. backslash \<notin> set e"
  by (auto simp: find_c_files_def entry_no_backslash split: if_splits)

lemma subn_src_files_literal:
  "backslash \<notin> set new_block \<Longrightarrow>
   subn_src_files tmpl new_block txt = Inr (subn src_files_re (\<lambda>m. new_block @ ''\<newline>\<newline>'') txt)"
  by (simp add: subn_src_files_def Let_def backslash_def)

section \<open>Pattern not found\<close>

lemma find_c_files_exists:
  "path_exists w r \<Longrightarrow> \<exists>es. find_c_files REPO_ROOT w r = Inr es"
  by (simp add: find_c_files_def)

text \<open>
  C3, as the code has it. Apply on a target whose text, read with universal newlines, has no
  match of the pattern, the backup path being free or a regular file, and no failure of the
  operating system: the run ends with the error "Failed to locate src_files block", status 1.
  The target is not written, but it is not left in place either: it was moved to the backup
  path before the patcher ran, so afterwards the target path is free and the backup holds
  the stored text.
\<close>

theorem pattern_not_found_leaves_backup_only:
  assumes src: "path_exists w (source_root_of (root a))"
    and ap: "apply_flag a"
    and tgt: "lookup (tree w) (resolve w (build_path_of (root a))) = Some (File txt)"
    and bak: "\<not> is_dir_at (tree w) (resolve w (backup_path_of (root a)))"
    and nomatch: "\<forall>i\<le>length (universal_newlines txt).
                    match src_files_re (drop i (universal_newlines txt)) = None"
  shows "result (main REPO_ROOT tmpl no_faults a w) = Inl not_located
       \<and> exit_status (result (main REPO_ROOT tmpl no_faults a w)) = 1
       \<and> lookup (tree (world_after (main REPO_ROOT tmpl no_faults a w)))
            (resolve w (build_path_of (root a))) = None
       \<and> lookup (tree (world_after (main REPO_ROOT tmpl no_faults a w)))
            (resolve w (backup_path_of (root a))) = Some (File txt)"
proof -
  let ?r = "root a"
  let ?D = "resolve w ?r @ [''src'', ''Flecs.NET.Native'']"
  let ?B = "build_path_of ?r" and ?K = "backup_path_of ?r"
  from find_c_files_exists [OF src] obtain es
    where fc: "find_c_files REPO_ROOT w (source_root_of ?r) = Inr es" by blast
  let ?g = "format_zig_array es"
  have nb: "backslash \<notin> set ?g"
    using find_c_files_no_backslash [OF fc] by (rule format_no_backslash)
  have rB: "resolve w ?B = ?D @ [''build.zig'']" and rK: "resolve w ?K = ?D @ [''build.zig.bak'']"
    by (simp_all add: resolve_build resolve_backup)
  have ex: "path_exists w ?B" using tgt by (simp add: path_exists_def)
  have dD: "is_dir_at (tree w) ?D"
    using tgt rB lookup_snoc_is_dir [of "tree w" ?D "''build.zig''"] by simp
  let ?t' = "update_at (?D @ [''build.zig.bak'']) (Some (File txt))
               (update_at (?D @ [''build.zig'']) None (tree w))"
  let ?w1 = "w\<lparr>tree := ?t'\<rparr>"
  have rp: "replace_path no_faults w ?B ?K = Inr ?w1"
    using replace_path_file [of no_faults w "?B" "txt" "?D" "''build.zig''" "?K" "''build.zig.bak''"]
      tgt bak rB rK by (simp add: no_faults_def)
  have ne: "''build.zig'' \<noteq> ''build.zig.bak''" by simp
  have lK: "lookup ?t' (?D @ [''build.zig.bak'']) = Some (File txt)"
    and lB: "lookup ?t' (?D @ [''build.zig'']) = None"
    using moved_tree [OF dD ne, where v = "Some (File txt)" and u = None] by blast+
  have rd: "read_text no_faults ?w1 ?K = Inr (universal_newlines txt)"
    using lK rK by (simp add: read_text_def no_faults_def)
  have sb: "subn_src_files tmpl ?g (universal_newlines txt) = Inr (universal_newlines txt, 0)"
    using subn_src_files_literal [OF nb] subn_no_match [OF nomatch] by simp
  have pt: "replace_block_in_build_paths tmpl no_faults ?w1 ?K ?B ?g = (Inl not_located, ?w1)"
    using rd sb by (simp add: replace_block_in_build_paths_def)
  have tp: "try_patch tmpl no_faults ?w1 ?K ?B ?K ?g [?g]
      = \<lparr>result = Inl not_located, printed = [?g], world_after = ?w1\<rparr>"
    using pt by (simp add: try_patch_def not_located_def)
  have m: "main REPO_ROOT tmpl no_faults a w
      = \<lparr>result = Inl not_located, printed = [?g], world_after = ?w1\<rparr>"
    using fc ap ex rp tp by (simp add: main_def with_suffix_build Let_def)
  show ?thesis
    using m lK lB rB rK by simp
qed

lemma no_match_upt:
  "(\<forall>i\<le>length s. match re (drop i s) = None)
     \<longleftrightarrow> list_all (\<lambda>i. match re (drop i s) = None) [0..<Suc (length s)]"
  by (auto simp: list_all_iff less_Suc_eq_le)

text \<open>
  C3 as stated says that the target is left untouched. On the sample world with the target
  text \<open>hello\<close> the run fails with the pattern error and the target path is free.
\<close>

theorem pattern_not_found_counterexample:
  "lookup (tree (sample_world ''hello'')) sample_build = Some (File ''hello'')
   \<and> result (main [''repo''] tmpl_reject no_faults sample_args (sample_world ''hello'')) = Inl not_located
   \<and> lookup (tree (world_after (main [''repo''] tmpl_reject no_faults sample_args (sample_world ''hello''))))
        sample_build = None"
  by code_simp

text \<open>
  The theorem at the sample world whose target is \<open>h\<close>, a carriage return, \<open>i\<close>: the text
  searched has a line feed, the backup keeps the carriage return.
\<close>

theorem pattern_not_found_leaves_backup_only_witness:
  "universal_newlines cr_text = ''h\<newline>i''
   \<and> subn src_files_re (\<lambda>m. []) ''h\<newline>i'' = (''h\<newline>i'', 0)
   \<and> result (main [''repo''] tmpl_reject no_faults sample_args (sample_world cr_text)) = Inl not_located
   \<and> lookup (tree (world_after (main [''repo''] tmpl_reject no_faults sample_args (sample_world cr_text))))
        sample_build = None
   \<and> lookup (tree (world_after (main [''repo''] tmpl_reject no_faults sample_args (sample_world cr_text))))
        sample_backup = Some (File cr_text)"
proof -
  have h1: "path_exists (sample_world cr_text) (source_root_of (root sample_args))"
    by code_simp
  have h2: "apply_flag sample_args" by code_simp
  have h3: "lookup (tree (sample_world cr_text))
        (resolve (sample_world cr_text) (build_path_of (root sample_args))) = Some (File cr_text)"
    by code_simp
  have h4: "\<not> is_dir_at (tree (sample_world cr_text))
        (resolve (sample_world cr_text) (backup_path_of (root sample_args)))"
    by code_simp
  have u: "universal_newlines cr_text = ''h\<newline>i''" by code_simp
  have "\<forall>i\<le>length ''h\<newline>i''. match src_files_re (drop i ''h\<newline>i'') = None"
    unfolding no_match_upt by code_simp
  then have h5: "\<forall>i\<le>length (universal_newlines cr_text).
      match src_files_re (drop i (universal_newlines cr_text)) = None"
    by (simp only: u)
  have r: "resolve (sample_world cr_text) (backup_path_of (root sample_args)) = sample_backup"
    "resolve (sample_world cr_text) (build_path_of (root sample_args)) = sample_build"
    by code_simp+
  show ?thesis
    using subn_no_match [OF h5] r u
      pattern_not_found_leaves_backup_only [OF h1 h2 h3 h4 h5, of "[''repo'']" tmpl_reject]
    by simp
qed

section \<open>Cleanup after a failure of the patcher\<close>

lemma replace_path_success:
  assumes "replace_path flt w src dst = Inr w1" and "resolve w src \<noteq> resolve w dst"
  shows "\<exists>n. lookup (tree w) (resolve w src) = Some n
            \<and> is_dir_at (tree w) (butlast (resolve w dst)) \<and> resolve w dst \<noteq> []
            \<and> w1 = w\<lparr>tree := update_at (resolve w dst) (Some n)
                                (update_at (resolve w src) None (tree w))\<rparr>"
  using assms
  by (auto simp: replace_path_def Let_def split: if_splits option.splits fsnode.splits list.splits)

lemma patcher_failure_world:
  assumes "replace_block_in_build_paths tmpl flt w inp outp g = (Inl e, w2)"
  shows "w2 = w \<or> (\<exists>c. w2 = w\<lparr>tree := update_at (resolve w outp) (Some (File c)) (tree w)\<rparr>
            \<and> e = OSError OpWriteText \<and> resolve w outp \<noteq> []
            \<and> is_dir_at (tree w) (butlast (resolve w outp)))"
  using assms
  by (auto simp: replace_block_in_build_paths_def write_text_def Let_def
      split: sum.splits prod.splits if_splits write_fault.splits)

lemma unlink_result:
  "unlink flt w p = Inr w' \<Longrightarrow> w' = w\<lparr>tree := update_at (resolve w p) None (tree w)\<rparr>"
  by (auto simp: unlink_def split: if_splits option.splits fsnode.splits)

lemma unlink_file:
  "\<not> unlink_fails flt \<Longrightarrow> lookup (tree w) (resolve w p) = Some (File c)
     \<Longrightarrow> unlink flt w p = Inr (w\<lparr>tree := update_at (resolve w p) None (tree w)\<rparr>)"
  by (simp add: unlink_def)

lemma try_patch_failure:
  assumes fail: "replace_block_in_build_paths tmpl flt w1 K B g = (Inl e, w2)"
    and absent: "lookup (tree w1) (resolve w1 B) = None"
    and rB: "resolve w1 B = D @ [x]" and rK: "resolve w1 K = D @ [y]" and xy: "x \<noteq> y"
  shows "result (try_patch tmpl flt w1 K B K g out) = Inl e"
    and "lookup (tree (world_after (try_patch tmpl flt w1 K B K g out))) (D @ [y])
           = lookup (tree w1) (D @ [y])"
    and "path_exists (world_after (try_patch tmpl flt w1 K B K g out)) B
           \<longrightarrow> unlink_fails flt \<and> is_Exception e"
proof -
  let ?run = "try_patch tmpl flt w1 K B K g out"
  have inc: "\<not> prefix (D @ [x]) (D @ [y])" "\<not> prefix (D @ [y]) (D @ [x])"
    using xy by auto
  show "result ?run = Inl e"
    using fail by (simp add: try_patch_def split: sum.splits)
  from patcher_failure_world [OF fail] consider
    (same) "w2 = w1"
  | (partial) c where "w2 = w1\<lparr>tree := update_at (D @ [x]) (Some (File c)) (tree w1)\<rparr>"
      "e = OSError OpWriteText" "is_dir_at (tree w1) D"
    using rB by auto
  then have "lookup (tree (world_after ?run)) (D @ [y]) = lookup (tree w1) (D @ [y])
      \<and> (path_exists (world_after ?run) B \<longrightarrow> unlink_fails flt \<and> is_Exception e)"
  proof cases
    case same
    then have "world_after ?run = w1"
      using fail absent by (simp add: try_patch_def path_exists_def split: sum.splits)
    then show ?thesis using absent by (simp add: path_exists_def)
  next
    case partial
    let ?t2 = "update_at (D @ [x]) (Some (File c)) (tree w1)"
    have r2: "resolve w2 B = D @ [x]" using partial(1) rB by simp
    have l2: "lookup (tree w2) (D @ [x]) = Some (File c)"
      using partial lookup_update_same [of "D @ [x]" "tree w1" "Some (File c)"] by simp
    have ex2: "path_exists w2 B" using l2 r2 by (simp add: path_exists_def)
    have k2: "lookup (tree w2) (D @ [y]) = lookup (tree w1) (D @ [y])"
      using partial(1) inc by (simp add: lookup_update_other)
    have d2: "is_dir_at (tree w2) D"
      using partial is_dir_update_prefix [of D "D @ [x]" "tree w1"] by (simp add: strict_prefix_def)
    show ?thesis
    proof (cases "unlink_fails flt")
      case True
      then have "world_after ?run = w2"
        using fail partial(2) ex2 by (simp add: try_patch_def unlink_def)
      then show ?thesis using True partial(2) k2 by simp
    next
      case False
      let ?w3 = "w2\<lparr>tree := update_at (D @ [x]) None (tree w2)\<rparr>"
      have u: "unlink flt w2 B = Inr ?w3"
        using unlink_file [OF False, of w2 B c] l2 r2 by simp
      then have wa: "world_after ?run = ?w3"
        using fail partial(2) ex2 by (simp add: try_patch_def)
      have "lookup (tree ?w3) (D @ [x]) = None"
        using lookup_update_same [of "D @ [x]" "tree w2" None] d2 by simp
      moreover have "lookup (tree ?w3) (D @ [y]) = lookup (tree w1) (D @ [y])"
        using k2 inc by (simp add: lookup_update_other)
      moreover have "resolve ?w3 B = D @ [x]" using r2 by simp
      ultimately show ?thesis using wa by (simp add: path_exists_def)
    qed
  qed
  then show "lookup (tree (world_after ?run)) (D @ [y]) = lookup (tree w1) (D @ [y])"
    and "path_exists (world_after ?run) B \<longrightarrow> unlink_fails flt \<and> is_Exception e"
    by blast+
qed

lemma try_patch_unlink:
  assumes fail: "replace_block_in_build_paths tmpl flt w1 K B g = (Inl e, w2)"
  shows "unlink flt w2 B = Inl e' \<Longrightarrow> world_after (try_patch tmpl flt w1 K B K g out) = w2"
    and "is_Exception e \<Longrightarrow> path_exists w2 B \<Longrightarrow> unlink flt w2 B = Inr w3
           \<Longrightarrow> world_after (try_patch tmpl flt w1 K B K g out) = w3"
  using fail by (simp_all add: try_patch_def)

lemma unlink_Inr_no_fault: "unlink flt w p = Inr w' \<Longrightarrow> \<not> unlink_fails flt"
  by (auto simp: unlink_def split: if_splits)

text \<open>
  C7. Apply mode, the patcher is reached (after the move of the target, or with the backup
  as input) and fails with \<open>e\<close>, leaving the world \<open>w2\<close>. The run ends with \<open>e\<close> itself. The
  backup is what it was when the patcher started. When \<open>e\<close> is an \<open>Exception\<close>, a target
  exists in \<open>w2\<close> and the unlink succeeds, the run leaves the world of the unlink, without
  the target. When the unlink fails, with whatever error, that error is dropped: the run
  still ends with \<open>e\<close> and leaves \<open>w2\<close>. So the target path is free afterwards unless the
  unlink itself failed. (\<open>SystemExit\<close> is not caught by \<open>except Exception\<close>, but then
  nothing was written and the target path is free.)
\<close>

theorem patcher_failure_cleanup:
  assumes ap: "apply_flag a"
    and fc: "find_c_files REPO_ROOT w (source_root_of (root a)) = Inr es"
    and sel: "(path_exists w (build_path_of (root a))
                 \<and> replace_path flt w (build_path_of (root a)) (backup_path_of (root a)) = Inr w1)
              \<or> (\<not> path_exists w (build_path_of (root a))
                 \<and> path_exists w (backup_path_of (root a)) \<and> w1 = w)"
    and fail: "replace_block_in_build_paths tmpl flt w1 (backup_path_of (root a))
                 (build_path_of (root a)) (format_zig_array es) = (Inl e, w2)"
  shows "result (main REPO_ROOT tmpl flt a w) = Inl e
       \<and> lookup (tree (world_after (main REPO_ROOT tmpl flt a w))) (resolve w (backup_path_of (root a)))
           = lookup (tree w1) (resolve w (backup_path_of (root a)))
       \<and> (path_exists (world_after (main REPO_ROOT tmpl flt a w)) (build_path_of (root a))
            \<longrightarrow> unlink_fails flt \<and> is_Exception e)
       \<and> (\<forall>w3. is_Exception e \<and> path_exists w2 (build_path_of (root a))
               \<and> unlink flt w2 (build_path_of (root a)) = Inr w3
            \<longrightarrow> world_after (main REPO_ROOT tmpl flt a w) = w3
                \<and> \<not> path_exists w3 (build_path_of (root a)))
       \<and> (\<forall>e'. unlink flt w2 (build_path_of (root a)) = Inl e'
            \<longrightarrow> result (main REPO_ROOT tmpl flt a w) = Inl e
                \<and> world_after (main REPO_ROOT tmpl flt a w) = w2)"
proof -
  let ?B = "build_path_of (root a)" and ?K = "backup_path_of (root a)"
  let ?D = "resolve w (root a) @ [''src'', ''Flecs.NET.Native'']"
  let ?g = "format_zig_array es"
  have rB: "resolve w ?B = ?D @ [''build.zig'']" and rK: "resolve w ?K = ?D @ [''build.zig.bak'']"
    by (simp_all add: resolve_build resolve_backup)
  have ne: "''build.zig'' \<noteq> ''build.zig.bak''" by simp
  have m: "main REPO_ROOT tmpl flt a w = try_patch tmpl flt w1 ?K ?B ?K ?g [?g]"
    using ap fc sel by (auto simp: main_def with_suffix_build Let_def)
  have cw: "cwd w1 = cwd w \<and> lookup (tree w1) (?D @ [''build.zig'']) = None"
    using sel
  proof
    assume c1: "path_exists w ?B \<and> replace_path flt w ?B ?K = Inr w1"
    have "resolve w ?B \<noteq> resolve w ?K" using rB rK by simp
    with replace_path_success [of flt w ?B ?K w1] c1 obtain n
      where d0: "is_dir_at (tree w) (butlast (resolve w ?K))"
        and w0: "w1 = w\<lparr>tree := update_at (resolve w ?K) (Some n)
                                 (update_at (resolve w ?B) None (tree w))\<rparr>"
      by blast
    have d: "is_dir_at (tree w) ?D" using d0 rK by (simp add: butlast_append)
    have w1: "w1 = w\<lparr>tree := update_at (?D @ [''build.zig.bak'']) (Some n)
                                 (update_at (?D @ [''build.zig'']) None (tree w))\<rparr>"
      using w0 rB rK by simp
    from moved_tree(2) [OF d ne, where v = "Some n" and u = None] w1
    show ?thesis by simp
  next
    assume "\<not> path_exists w ?B \<and> path_exists w ?K \<and> w1 = w"
    then show ?thesis using rB by (simp add: path_exists_def)
  qed
  then have rs: "resolve w1 p = resolve w p" for p
    by (simp add: resolve_def)
  from cw have r1: "resolve w1 ?B = ?D @ [''build.zig'']" "resolve w1 ?K = ?D @ [''build.zig.bak'']"
    and ab: "lookup (tree w1) (resolve w1 ?B) = None"
    using rB rK by (simp_all add: rs)
  from try_patch_failure [OF fail ab r1 ne, of "[?g]"]
  have base: "result (main REPO_ROOT tmpl flt a w) = Inl e"
    "lookup (tree (world_after (main REPO_ROOT tmpl flt a w))) (resolve w ?K)
       = lookup (tree w1) (resolve w ?K)"
    "path_exists (world_after (main REPO_ROOT tmpl flt a w)) ?B
       \<longrightarrow> unlink_fails flt \<and> is_Exception e"
    using m rK by simp_all
  have del: "world_after (main REPO_ROOT tmpl flt a w) = w3 \<and> \<not> path_exists w3 ?B"
    if "is_Exception e \<and> path_exists w2 ?B \<and> unlink flt w2 ?B = Inr w3" for w3
  proof -
    from that try_patch_unlink(2) [OF fail, of w3 "[?g]"] m
    have eq: "world_after (main REPO_ROOT tmpl flt a w) = w3" by simp
    from that have "\<not> unlink_fails flt" using unlink_Inr_no_fault by blast
    with base(3) eq show ?thesis by auto
  qed
  have sup: "world_after (main REPO_ROOT tmpl flt a w) = w2"
    if "unlink flt w2 ?B = Inl e'" for e'
    using that try_patch_unlink(1) [OF fail, of e' "[?g]"] m by simp
  show ?thesis
    using base del sup by blast
qed

text \<open>
  The theorem at the sample world, with a write that breaks after three characters. When the
  unlink works, the partial target is removed. When the unlink fails too, the run ends with
  the error of the write, not with that of the unlink, and the partial target stays. In both
  runs the backup holds the original text.
\<close>

theorem patcher_failure_cleanup_witness:
  "result (main [''repo''] tmpl_reject write_breaks sample_args (sample_world empty_block))
     = Inl (OSError OpWriteText)
   \<and> \<not> path_exists (world_after (main [''repo''] tmpl_reject write_breaks sample_args
          (sample_world empty_block))) (build_path_of (root sample_args))
   \<and> lookup (tree (world_after (main [''repo''] tmpl_reject write_breaks sample_args
          (sample_world empty_block)))) sample_backup = Some (File empty_block)
   \<and> unlink write_unlink_break
        (world_after (main [''repo''] tmpl_reject write_unlink_break sample_args
          (sample_world empty_block))) (build_path_of (root sample_args))
     = Inl (OSError OpUnlink)
   \<and> result (main [''repo''] tmpl_reject write_unlink_break sample_args (sample_world empty_block))
     = Inl (OSError OpWriteText)
   \<and> lookup (tree (world_after (main [''repo''] tmpl_reject write_unlink_break sample_args
          (sample_world empty_block)))) sample_build = Some (File ''con'')
   \<and> lookup (tree (world_after (main [''repo''] tmpl_reject write_unlink_break sample_args
          (sample_world empty_block)))) sample_backup = Some (File empty_block)"
proof -
  let ?w = "sample_world empty_block"
  let ?w1 = "?w\<lparr>tree := update_at sample_backup (Some (File empty_block))
                         (update_at sample_build None (tree ?w))\<rparr>"
  let ?w2 = "?w1\<lparr>tree := update_at sample_build (Some (File ''con'')) (tree ?w1)\<rparr>"
  let ?B = "build_path_of (root sample_args)" and ?K = "backup_path_of (root sample_args)"
  let ?es = "[''native/flecs/src/a.c'']"
  have h1: "apply_flag sample_args" by code_simp
  have h2: "find_c_files [''repo''] ?w (source_root_of (root sample_args)) = Inr ?es"
    by code_simp
  have h3: "(path_exists ?w ?B \<and> replace_path write_breaks ?w ?B ?K = Inr ?w1)
            \<or> (\<not> path_exists ?w ?B \<and> path_exists ?w ?K \<and> ?w1 = ?w)"
    by code_simp
  have h4: "replace_block_in_build_paths tmpl_reject write_breaks ?w1 ?K ?B (format_zig_array ?es)
      = (Inl (OSError OpWriteText), ?w2)"
    by code_simp
  have g3: "(path_exists ?w ?B \<and> replace_path write_unlink_break ?w ?B ?K = Inr ?w1)
            \<or> (\<not> path_exists ?w ?B \<and> path_exists ?w ?K \<and> ?w1 = ?w)"
    by code_simp
  have g4: "replace_block_in_build_paths tmpl_reject write_unlink_break ?w1 ?K ?B
        (format_zig_array ?es) = (Inl (OSError OpWriteText), ?w2)"
    by code_simp
  have u: "\<not> unlink_fails write_breaks" by code_simp
  have uf: "unlink write_unlink_break ?w2 ?B = Inl (OSError OpUnlink)" by code_simp
  have r: "resolve ?w ?K = sample_backup" by code_simp
  have l: "lookup (tree ?w1) sample_backup = Some (File empty_block)"
    "lookup (tree ?w2) sample_build = Some (File ''con'')"
    "lookup (tree ?w2) sample_backup = Some (File empty_block)"
    by code_simp+
  from patcher_failure_cleanup [OF h1 h2 h3 h4] u r l
  have a: "result (main [''repo''] tmpl_reject write_breaks sample_args ?w)
       = Inl (OSError OpWriteText)
     \<and> \<not> path_exists (world_after (main [''repo''] tmpl_reject write_breaks sample_args ?w)) ?B
     \<and> lookup (tree (world_after (main [''repo''] tmpl_reject write_breaks sample_args ?w)))
          sample_backup = Some (File empty_block)"
    by simp
  from patcher_failure_cleanup [OF h1 h2 g3 g4] uf
  have b: "result (main [''repo''] tmpl_reject write_unlink_break sample_args ?w)
       = Inl (OSError OpWriteText)
     \<and> world_after (main [''repo''] tmpl_reject write_unlink_break sample_args ?w) = ?w2"
    by blast
  show ?thesis
    using a b uf l by simp
qed

section \<open>Apply, delete the target, apply again\<close>

lemma match_suffix: "match re s = Some rest \<Longrightarrow> suffix rest s"
proof (induction re s arbitrary: rest rule: match.induct)
  case (1 s)
  then show ?case by simp
next
  case (2 l r s)
  then have p: "prefix l s" and m: "match r (drop (length l) s) = Some rest"
    by (auto split: if_splits)
  from 2(1) [OF p m] have "suffix rest (drop (length l) s)" .
  then show ?case by (meson suffix_drop suffix_order.trans)
next
  case (3 c r)
  then show ?case by simp
next
  case (4 c r x xs)
  then show ?case by (auto split: if_splits intro: suffix_ConsI)
next
  case (5 c r)
  then show ?case by simp
next
  case (6 c r x xs)
  then show ?case by (auto split: if_splits option.splits intro: suffix_ConsI)
next
  case (7 c r)
  then show ?case by simp
next
  case (8 c r x xs)
  then show ?case by (auto split: if_splits option.splits intro: suffix_ConsI)
qed

lemma match_src_files_consumes:
  assumes "match src_files_re s = Some rest"
  shows "length rest < length s"
proof -
  from assms have p: "prefix ''const'' s"
    and m: "match (tl src_files_re) (drop (length ''const'') s) = Some rest"
    by (auto simp: src_files_re_def split: if_splits)
  from match_suffix [OF m] have "length rest \<le> length (drop (length ''const'') s)"
    by (rule suffix_length_le)
  moreover from p have "length ''const'' \<le> length s" by (rule prefix_length_le)
  ultimately show ?thesis by simp
qed

lemma subn_first_match:
  assumes "\<forall>i<length pre. match re (drop i (pre @ s)) = None"
    and "match re s = Some rest" and "length rest < length s"
  shows "subn re f (pre @ s)
     = (pre @ f (take (length s - length rest) s) @ fst (subn re f rest), Suc (snd (subn re f rest)))"
  using assms(1)
proof (induction pre)
  case Nil
  with assms(2,3) show ?case by (simp split: prod.splits)
next
  case (Cons x xs)
  from Cons.prems have m0: "match re (x # xs @ s) = None" by force
  have "\<forall>i<length xs. match re (drop i (xs @ s)) = None"
  proof (intro allI impI)
    fix i assume "i < length xs"
    then have "Suc i < length (x # xs)" by simp
    with Cons.prems have "match re (drop (Suc i) ((x # xs) @ s)) = None" by blast
    then show "match re (drop i (xs @ s)) = None" by simp
  qed
  from Cons.IH [OF this] m0 show ?case by simp
qed

lemma subn_count_pos:
  "\<exists>i\<le>length s. match re (drop i s) \<noteq> None \<Longrightarrow> 0 < snd (subn re f s)"
proof (induction s)
  case Nil
  then show ?case by (auto split: option.splits)
next
  case (Cons x xs)
  show ?case
  proof (cases "match re (x # xs)")
    case (Some rest)
    then show ?thesis by (auto split: prod.splits)
  next
    case None
    from Cons.prems obtain i where i: "i \<le> length (x # xs)" "match re (drop i (x # xs)) \<noteq> None"
      by blast
    with None obtain j where "i = Suc j" by (cases i) auto
    with i have "\<exists>j\<le>length xs. match re (drop j xs) \<noteq> None" by auto
    with Cons.IH have "0 < snd (subn re f xs)" by blast
    with None show ?thesis by (auto split: prod.splits)
  qed
qed

lemma lookup_update_sibling:
  "is_dir_at t D \<Longrightarrow> lookup (update_at (D @ [x]) v t) (D @ [y]) = (if x = y then v else lookup t (D @ [y]))"
  using lookup_update_same [of "D @ [x]" t v] lookup_update_other [of "D @ [x]" "D @ [y]" v t]
  by auto

lemma is_dir_update_parent:
  "is_dir_at t D \<Longrightarrow> is_dir_at (update_at (D @ [x]) v t) D"
  using is_dir_update_prefix [of D "D @ [x]" t v] by (simp add: strict_prefix_def)

lemma lookup_update_source:
  "a \<noteq> b \<Longrightarrow> lookup (update_at (R @ a # as) v t) (R @ b # bs) = lookup t (R @ b # bs)"
  by (rule lookup_update_other) auto

lemma find_c_files_cong:
  assumes "cwd w' = cwd w" and "lookup (tree w') (resolve w r) = lookup (tree w) (resolve w r)"
  shows "find_c_files REPO_ROOT w' r = find_c_files REPO_ROOT w r"
proof -
  have "resolve w' r = resolve w r" using assms(1) by (simp add: resolve_def)
  with assms(2) show ?thesis
    by (simp add: find_c_files_def path_exists_def rglob_c_def)
qed

lemma try_patch_success:
  assumes rd: "lookup (tree w1) (D @ [y]) = Some (File txt)"
    and ab: "lookup (tree w1) (D @ [x]) = None"
    and rB: "resolve w1 B = D @ [x]" and rK: "resolve w1 K = D @ [y]"
    and nb: "backslash \<notin> set g"
    and cnt: "0 < snd (subn src_files_re (\<lambda>m. g @ ''\<newline>\<newline>'') (universal_newlines txt))"
  shows "try_patch tmpl no_faults w1 K B K g out
     = \<lparr>result = Inr (),
        printed = out @ [''Applied updated src_files to '' @ str_path B
                            @ '' (backup at '' @ str_path K @ '')''],
        world_after = w1\<lparr>tree := update_at (D @ [x])
           (Some (File (fst (subn src_files_re (\<lambda>m. g @ ''\<newline>\<newline>'') (universal_newlines txt))))) (tree w1)\<rparr>\<rparr>"
proof -
  have d: "is_dir_at (tree w1) D" using rd by (rule lookup_snoc_is_dir)
  have nd: "\<not> is_dir_at (tree w1) (D @ [x])" using ab by (simp add: is_dir_at_def)
  have r: "read_text no_faults w1 K = Inr (universal_newlines txt)"
    using rd rK by (simp add: read_text_def no_faults_def)
  obtain new_txt n where sn: "subn src_files_re (\<lambda>m. g @ ''\<newline>\<newline>'') (universal_newlines txt) = (new_txt, n)"
    by (cases "subn src_files_re (\<lambda>m. g @ ''\<newline>\<newline>'') (universal_newlines txt)")
  with cnt have n: "n \<noteq> 0" by simp
  have wr: "write_text no_faults w1 B new_txt
      = (Inr (), w1\<lparr>tree := update_at (D @ [x]) (Some (File new_txt)) (tree w1)\<rparr>)"
    using d nd rB by (simp add: write_text_def no_faults_def Let_def)
  have "replace_block_in_build_paths tmpl no_faults w1 K B g
      = (Inr (), w1\<lparr>tree := update_at (D @ [x]) (Some (File new_txt)) (tree w1)\<rparr>)"
    using r sn n wr subn_src_files_literal [OF nb, of tmpl "universal_newlines txt"]
    by (simp add: replace_block_in_build_paths_def)
  then show ?thesis using sn by (simp add: try_patch_def)
qed

lemma main_apply_fresh:
  assumes fc: "find_c_files REPO_ROOT w (source_root_of (root a)) = Inr es"
    and ap: "apply_flag a"
    and D: "D = resolve w (root a) @ [''src'', ''Flecs.NET.Native'']"
    and tgt: "lookup (tree w) (D @ [''build.zig'']) = Some (File txt)"
    and bak: "\<not> is_dir_at (tree w) (D @ [''build.zig.bak''])"
    and cnt: "0 < snd (subn src_files_re (\<lambda>m. format_zig_array es @ ''\<newline>\<newline>'') (universal_newlines txt))"
  shows "main REPO_ROOT tmpl no_faults a w
     = \<lparr>result = Inr (),
        printed = [format_zig_array es,
                   ''Applied updated src_files to '' @ str_path (build_path_of (root a))
                     @ '' (backup at '' @ str_path (backup_path_of (root a)) @ '')''],
        world_after = w\<lparr>tree := update_at (D @ [''build.zig''])
           (Some (File (fst (subn src_files_re (\<lambda>m. format_zig_array es @ ''\<newline>\<newline>'') (universal_newlines txt)))))
           (update_at (D @ [''build.zig.bak'']) (Some (File txt))
              (update_at (D @ [''build.zig'']) None (tree w)))\<rparr>\<rparr>"
proof -
  let ?B = "build_path_of (root a)" and ?K = "backup_path_of (root a)"
  let ?g = "format_zig_array es"
  have nb: "backslash \<notin> set ?g"
    using find_c_files_no_backslash [OF fc] by (rule format_no_backslash)
  have rB: "resolve w ?B = D @ [''build.zig'']" and rK: "resolve w ?K = D @ [''build.zig.bak'']"
    using D by (simp_all add: resolve_build resolve_backup)
  have ex: "path_exists w ?B" using tgt rB by (simp add: path_exists_def)
  have dD: "is_dir_at (tree w) D" using tgt by (rule lookup_snoc_is_dir)
  let ?t1 = "update_at (D @ [''build.zig.bak'']) (Some (File txt))
               (update_at (D @ [''build.zig'']) None (tree w))"
  let ?w1 = "w\<lparr>tree := ?t1\<rparr>"
  have rp: "replace_path no_faults w ?B ?K = Inr ?w1"
    using replace_path_file [of no_faults w "?B" "txt" D "''build.zig''" "?K" "''build.zig.bak''"]
      tgt bak rB rK by (simp add: no_faults_def)
  have ne: "''build.zig'' \<noteq> ''build.zig.bak''" by simp
  have lK: "lookup (tree ?w1) (D @ [''build.zig.bak'']) = Some (File txt)"
    and lB: "lookup (tree ?w1) (D @ [''build.zig'']) = None"
    using moved_tree [OF dD ne, where v = "Some (File txt)" and u = None] by simp_all
  have r1: "resolve ?w1 ?B = D @ [''build.zig'']" "resolve ?w1 ?K = D @ [''build.zig.bak'']"
    using rB rK by simp_all
  from try_patch_success [OF lK lB r1 nb cnt, of tmpl "[?g]"] show ?thesis
    using fc ap ex rp by (simp add: main_def with_suffix_build Let_def)
qed

lemma main_apply_from_backup:
  assumes fc: "find_c_files REPO_ROOT w (source_root_of (root a)) = Inr es"
    and ap: "apply_flag a"
    and D: "D = resolve w (root a) @ [''src'', ''Flecs.NET.Native'']"
    and tgt: "lookup (tree w) (D @ [''build.zig'']) = None"
    and bak: "lookup (tree w) (D @ [''build.zig.bak'']) = Some (File txt)"
    and cnt: "0 < snd (subn src_files_re (\<lambda>m. format_zig_array es @ ''\<newline>\<newline>'') (universal_newlines txt))"
  shows "main REPO_ROOT tmpl no_faults a w
     = \<lparr>result = Inr (),
        printed = [format_zig_array es,
                   ''Applied updated src_files to '' @ str_path (build_path_of (root a))
                     @ '' (backup at '' @ str_path (backup_path_of (root a)) @ '')''],
        world_after = w\<lparr>tree := update_at (D @ [''build.zig''])
           (Some (File (fst (subn src_files_re (\<lambda>m. format_zig_array es @ ''\<newline>\<newline>'') (universal_newlines txt)))))
           (tree w)\<rparr>\<rparr>"
proof -
  let ?B = "build_path_of (root a)" and ?K = "backup_path_of (root a)"
  let ?g = "format_zig_array es"
  have nb: "backslash \<notin> set ?g"
    using find_c_files_no_backslash [OF fc] by (rule format_no_backslash)
  have rB: "resolve w ?B = D @ [''build.zig'']" and rK: "resolve w ?K = D @ [''build.zig.bak'']"
    using D by (simp_all add: resolve_build resolve_backup)
  have nex: "\<not> path_exists w ?B" using tgt rB by (simp add: path_exists_def)
  have ex: "path_exists w ?K" using bak rK by (simp add: path_exists_def)
  from try_patch_success [OF bak tgt rB rK nb cnt, of tmpl "[?g]"] show ?thesis
    using fc ap ex nex by (simp add: main_def with_suffix_build Let_def)
qed

text \<open>
  C5. A target whose text, read with universal newlines, has a match of the pattern; no
  backup; no failure of the operating system. Let \<open>es\<close> be the entries discovered and
  \<open>patched\<close> the text read with every match replaced by the rendered block of \<open>es\<close> and two
  newlines: with \<open>m\<close> the leftmost match, \<open>pre\<close> the text before it and \<open>post\<close> the text
  after it, \<open>patched\<close> is \<open>pre\<close>, the block, two newlines, and \<open>post\<close> treated in the same
  way. The first apply succeeds: the target holds \<open>patched\<close> and the backup the stored text.
  Deleting the target then succeeds and leaves the backup. The second apply succeeds from the
  backup, and the target holds \<open>patched\<close> again.
\<close>

theorem backup_recovery:
  assumes src: "path_exists w (source_root_of (root a))"
    and ap: "apply_flag a"
    and tgt: "lookup (tree w) (resolve w (build_path_of (root a))) = Some (File txt)"
    and nobak: "lookup (tree w) (resolve w (backup_path_of (root a))) = None"
    and valid: "\<exists>i\<le>length (universal_newlines txt).
                  match src_files_re (drop i (universal_newlines txt)) \<noteq> None"
  shows "\<exists>es patched w3.
       find_c_files REPO_ROOT w (source_root_of (root a)) = Inr es
     \<and> patched = fst (subn src_files_re (\<lambda>m. format_zig_array es @ ''\<newline>\<newline>'')
                        (universal_newlines txt))
     \<and> (\<forall>pre m post.
           universal_newlines txt = pre @ m @ post
           \<and> (\<forall>i<length pre. match src_files_re (drop i (universal_newlines txt)) = None)
           \<and> match src_files_re (m @ post) = Some post
         \<longrightarrow> patched = pre @ format_zig_array es @ ''\<newline>\<newline>''
               @ fst (subn src_files_re (\<lambda>m. format_zig_array es @ ''\<newline>\<newline>'') post))
     \<and> result (main REPO_ROOT tmpl no_faults a w) = Inr ()
     \<and> lookup (tree (world_after (main REPO_ROOT tmpl no_faults a w)))
           (resolve w (build_path_of (root a))) = Some (File patched)
     \<and> lookup (tree (world_after (main REPO_ROOT tmpl no_faults a w)))
           (resolve w (backup_path_of (root a))) = Some (File txt)
     \<and> unlink no_faults (world_after (main REPO_ROOT tmpl no_faults a w)) (build_path_of (root a))
           = Inr w3
     \<and> lookup (tree w3) (resolve w (build_path_of (root a))) = None
     \<and> lookup (tree w3) (resolve w (backup_path_of (root a))) = Some (File txt)
     \<and> result (main REPO_ROOT tmpl no_faults a w3) = Inr ()
     \<and> lookup (tree (world_after (main REPO_ROOT tmpl no_faults a w3)))
           (resolve w (build_path_of (root a))) = Some (File patched)
     \<and> lookup (tree (world_after (main REPO_ROOT tmpl no_faults a w3)))
           (resolve w (backup_path_of (root a))) = Some (File txt)"
proof -
  let ?B = "build_path_of (root a)" and ?K = "backup_path_of (root a)"
  let ?R = "resolve w (root a)"
  define D where "D = ?R @ [''src'', ''Flecs.NET.Native'']"
  from find_c_files_exists [OF src] obtain es
    where fc: "find_c_files REPO_ROOT w (source_root_of (root a)) = Inr es" by blast
  let ?g = "format_zig_array es"
  let ?f = "\<lambda>m::string. ?g @ ''\<newline>\<newline>''"
  let ?u = "universal_newlines txt"
  define patched where "patched = fst (subn src_files_re ?f ?u)"
  have cnt: "0 < snd (subn src_files_re ?f ?u)"
    using valid by (rule subn_count_pos)
  have dec: "patched = pre @ ?g @ ''\<newline>\<newline>'' @ fst (subn src_files_re ?f post)"
    if a: "?u = pre @ m @ post
           \<and> (\<forall>i<length pre. match src_files_re (drop i ?u) = None)
           \<and> match src_files_re (m @ post) = Some post" for pre m post
  proof -
    from a have mt: "match src_files_re (m @ post) = Some post"
      and early: "\<forall>i<length pre. match src_files_re (drop i (pre @ m @ post)) = None"
      by auto
    from match_src_files_consumes [OF mt] have len: "length post < length (m @ post)" .
    from subn_first_match [OF early mt len, of ?f] a show ?thesis
      by (simp add: patched_def)
  qed
  have rB: "resolve w ?B = D @ [''build.zig'']" and rK: "resolve w ?K = D @ [''build.zig.bak'']"
    by (simp_all add: D_def resolve_build resolve_backup)
  have t: "lookup (tree w) (D @ [''build.zig'']) = Some (File txt)" using tgt rB by simp
  have nd: "\<not> is_dir_at (tree w) (D @ [''build.zig.bak''])"
    using nobak rK by (simp add: is_dir_at_def)
  have d0: "is_dir_at (tree w) D" using t by (rule lookup_snoc_is_dir)
  let ?t0 = "update_at (D @ [''build.zig'']) None (tree w)"
  let ?t1 = "update_at (D @ [''build.zig.bak'']) (Some (File txt)) ?t0"
  let ?t2 = "update_at (D @ [''build.zig'']) (Some (File patched)) ?t1"
  let ?t3 = "update_at (D @ [''build.zig'']) None ?t2"
  let ?w2 = "w\<lparr>tree := ?t2\<rparr>" and ?w3 = "w\<lparr>tree := ?t3\<rparr>"
  have dirs: "is_dir_at ?t0 D" "is_dir_at ?t1 D" "is_dir_at ?t2 D" "is_dir_at ?t3 D"
    using d0 by (simp_all add: is_dir_update_parent)
  have run1: "main REPO_ROOT tmpl no_faults a w
     = \<lparr>result = Inr (),
        printed = [?g, ''Applied updated src_files to '' @ str_path ?B
                     @ '' (backup at '' @ str_path ?K @ '')''],
        world_after = ?w2\<rparr>"
    using main_apply_fresh [OF fc ap D_def t nd cnt, of tmpl] by (simp add: patched_def)
  have l2: "lookup ?t2 (D @ [''build.zig'']) = Some (File patched)"
    "lookup ?t2 (D @ [''build.zig.bak'']) = Some (File txt)"
    using dirs d0 by (simp_all add: lookup_update_sibling)
  have l3: "lookup ?t3 (D @ [''build.zig'']) = None"
    "lookup ?t3 (D @ [''build.zig.bak'']) = Some (File txt)"
    using dirs d0 by (simp_all add: lookup_update_sibling)
  have ul: "unlink no_faults ?w2 ?B = Inr ?w3"
    using unlink_file [of no_faults ?w2 ?B patched] l2(1) rB by (simp add: no_faults_def)
  have srcs: "lookup ?t3 (resolve w (source_root_of (root a)))
      = lookup (tree w) (resolve w (source_root_of (root a)))"
    by (simp add: D_def resolve_source lookup_update_source)
  have fc3: "find_c_files REPO_ROOT ?w3 (source_root_of (root a)) = Inr es"
    using find_c_files_cong [of ?w3 w "source_root_of (root a)" REPO_ROOT] srcs fc by simp
  have D3: "D = resolve ?w3 (root a) @ [''src'', ''Flecs.NET.Native'']"
    by (simp add: D_def)
  have run2: "main REPO_ROOT tmpl no_faults a ?w3
     = \<lparr>result = Inr (),
        printed = [?g, ''Applied updated src_files to '' @ str_path ?B
                     @ '' (backup at '' @ str_path ?K @ '')''],
        world_after = ?w3\<lparr>tree := update_at (D @ [''build.zig'']) (Some (File patched)) ?t3\<rparr>\<rparr>"
    using main_apply_from_backup [OF fc3 ap D3 _ _ cnt, of tmpl] l3 by (simp add: patched_def)
  have l4: "lookup (update_at (D @ [''build.zig'']) (Some (File patched)) ?t3) (D @ [''build.zig''])
      = Some (File patched)"
    "lookup (update_at (D @ [''build.zig'']) (Some (File patched)) ?t3) (D @ [''build.zig.bak''])
      = Some (File txt)"
    using dirs l3 by (simp_all add: lookup_update_sibling)
  have rest: "result (main REPO_ROOT tmpl no_faults a w) = Inr ()
     \<and> lookup (tree (world_after (main REPO_ROOT tmpl no_faults a w))) (resolve w ?B)
         = Some (File patched)
     \<and> lookup (tree (world_after (main REPO_ROOT tmpl no_faults a w))) (resolve w ?K)
         = Some (File txt)
     \<and> unlink no_faults (world_after (main REPO_ROOT tmpl no_faults a w)) ?B = Inr ?w3
     \<and> lookup (tree ?w3) (resolve w ?B) = None
     \<and> lookup (tree ?w3) (resolve w ?K) = Some (File txt)
     \<and> result (main REPO_ROOT tmpl no_faults a ?w3) = Inr ()
     \<and> lookup (tree (world_after (main REPO_ROOT tmpl no_faults a ?w3))) (resolve w ?B)
         = Some (File patched)
     \<and> lookup (tree (world_after (main REPO_ROOT tmpl no_faults a ?w3))) (resolve w ?K)
         = Some (File txt)"
    using run1 run2 l2 l3 l4 ul rB rK by simp
  show ?thesis
    apply (rule exI [of _ es])
    apply (rule exI [of _ patched])
    apply (rule exI [of _ ?w3])
    using fc dec rest patched_def by blast
qed

text \<open>
  The theorem at the sample world whose target is the empty block stored with carriage
  returns: the patched text is the rendered block and two newlines, and the backup keeps the
  carriage returns.
\<close>

theorem backup_recovery_witness:
  "\<exists>w3.
       result (main [''repo''] tmpl_reject no_faults sample_args (sample_world crlf_block)) = Inr ()
     \<and> lookup (tree (world_after (main [''repo''] tmpl_reject no_faults sample_args (sample_world crlf_block))))
           sample_build = Some (File (format_zig_array [''native/flecs/src/a.c''] @ ''\<newline>\<newline>''))
     \<and> lookup (tree (world_after (main [''repo''] tmpl_reject no_faults sample_args (sample_world crlf_block))))
           sample_backup = Some (File crlf_block)
     \<and> unlink no_faults (world_after (main [''repo''] tmpl_reject no_faults sample_args (sample_world crlf_block)))
           (build_path_of (root sample_args)) = Inr w3
     \<and> lookup (tree w3) sample_build = None
     \<and> lookup (tree w3) sample_backup = Some (File crlf_block)
     \<and> result (main [''repo''] tmpl_reject no_faults sample_args w3) = Inr ()
     \<and> lookup (tree (world_after (main [''repo''] tmpl_reject no_faults sample_args w3)))
           sample_build = Some (File (format_zig_array [''native/flecs/src/a.c''] @ ''\<newline>\<newline>''))
     \<and> lookup (tree (world_after (main [''repo''] tmpl_reject no_faults sample_args w3)))
           sample_backup = Some (File crlf_block)"
proof -
  let ?w = "sample_world crlf_block"
  have h1: "path_exists ?w (source_root_of (root sample_args))" by code_simp
  have h2: "apply_flag sample_args" by code_simp
  have h3: "lookup (tree ?w) (resolve ?w (build_path_of (root sample_args))) = Some (File crlf_block)"
    by code_simp
  have h4: "lookup (tree ?w) (resolve ?w (backup_path_of (root sample_args))) = None"
    by code_simp
  have "match src_files_re (drop 0 (universal_newlines crlf_block)) \<noteq> None" by code_simp
  then have h5: "\<exists>i\<le>length (universal_newlines crlf_block).
      match src_files_re (drop i (universal_newlines crlf_block)) \<noteq> None"
    by blast
  have fc: "find_c_files [''repo''] ?w (source_root_of (root sample_args))
      = Inr [''native/flecs/src/a.c'']" by code_simp
  have pv: "fst (subn src_files_re (\<lambda>m. format_zig_array [''native/flecs/src/a.c''] @ ''\<newline>\<newline>'')
        (universal_newlines crlf_block))
      = format_zig_array [''native/flecs/src/a.c''] @ ''\<newline>\<newline>''" by code_simp
  have r: "resolve ?w (build_path_of (root sample_args)) = sample_build"
    "resolve ?w (backup_path_of (root sample_args)) = sample_backup"
    by code_simp+
  from backup_recovery [OF h1 h2 h3 h4 h5, of "[''repo'']" tmpl_reject]
  obtain es patched w3 where
    e: "find_c_files [''repo''] ?w (source_root_of (root sample_args)) = Inr es"
    and p: "patched = fst (subn src_files_re (\<lambda>m. format_zig_array es @ ''\<newline>\<newline>'')
                        (universal_newlines crlf_block))"
    and f: "result (main [''repo''] tmpl_reject no_faults sample_args ?w) = Inr ()
     \<and> lookup (tree (world_after (main [''repo''] tmpl_reject no_faults sample_args ?w)))
           (resolve ?w (build_path_of (root sample_args))) = Some (File patched)
     \<and> lookup (tree (world_after (main [''repo''] tmpl_reject no_faults sample_args ?w)))
           (resolve ?w (backup_path_of (root sample_args))) = Some (File crlf_block)
     \<and> unlink no_faults (world_after (main [''repo''] tmpl_reject no_faults sample_args ?w))
           (build_path_of (root sample_args)) = Inr w3
     \<and> lookup (tree w3) (resolve ?w (build_path_of (root sample_args))) = None
     \<and> lookup (tree w3) (resolve ?w (backup_path_of (root sample_args))) = Some (File crlf_block)
     \<and> result (main [''repo''] tmpl_reject no_faults sample_args w3) = Inr ()
     \<and> lookup (tree (world_after (main [''repo''] tmpl_reject no_faults sample_args w3)))
           (resolve ?w (build_path_of (root sample_args))) = Some (File patched)
     \<and> lookup (tree (world_after (main [''repo''] tmpl_reject no_faults sample_args w3)))
           (resolve ?w (backup_path_of (root sample_args))) = Some (File crlf_block)"
    by blast
  from e fc have "es = [''native/flecs/src/a.c'']" by simp
  with p pv have "patched = format_zig_array [''native/flecs/src/a.c''] @ ''\<newline>\<newline>''"
    by simp
  with f r show ?thesis
    by (intro exI [of _ w3]) simp
qed

text \<open>
  C1 at the sample world whose target is the empty block: both applies succeed, and the backup
  after the second apply is the target after the first; but the target after the second apply
  is not the target after the first. The pattern takes one newline after the closing
  \<open>};\<close> and the replacement puts two, so the second apply adds a newline.
\<close>

theorem second_apply_adds_newline:
  "result (main [''repo''] tmpl_reject no_faults sample_args (sample_world empty_block)) = Inr ()
   \<and> lookup (tree (world_after (main [''repo''] tmpl_reject no_faults sample_args
         (sample_world empty_block)))) sample_build
      = Some (File (format_zig_array [''native/flecs/src/a.c''] @ ''\<newline>\<newline>''))
   \<and> result (main [''repo''] tmpl_reject no_faults sample_args
         (world_after (main [''repo''] tmpl_reject no_faults sample_args (sample_world empty_block))))
      = Inr ()
   \<and> lookup (tree (world_after (main [''repo''] tmpl_reject no_faults sample_args
         (world_after (main [''repo''] tmpl_reject no_faults sample_args (sample_world empty_block))))))
         sample_build
      = Some (File (format_zig_array [''native/flecs/src/a.c''] @ ''\<newline>\<newline>\<newline>''))
   \<and> lookup (tree (world_after (main [''repo''] tmpl_reject no_faults sample_args
         (world_after (main [''repo''] tmpl_reject no_faults sample_args (sample_world empty_block))))))
         sample_backup
      = Some (File (format_zig_array [''native/flecs/src/a.c''] @ ''\<newline>\<newline>''))
   \<and> lookup (tree (world_after (main [''repo''] tmpl_reject no_faults sample_args
         (world_after (main [''repo''] tmpl_reject no_faults sample_args (sample_world empty_block))))))
         sample_build
      \<noteq> lookup (tree (world_after (main [''repo''] tmpl_reject no_faults sample_args
         (sample_world empty_block)))) sample_build"
  by code_simp


section \<open>What the patcher replaces\<close>





section \<open>Rendering does not depend on the order of the entries\<close>

lemma sort_mset_cong: "mset xs = mset ys \<Longrightarrow> sort xs = sort ys"
  by (rule properties_for_sort) simp_all





section \<open>A root outside the repository of the script\<close>

lemma build_groups_filter:
  "build_groups G es = build_groups G (filter (prefix prefix_src) es)"
  by (induction G es rule: build_groups.induct) simp_all

lemma format_drops_foreign:
  "format_zig_array es = format_zig_array (filter (prefix prefix_src) es)"
  using build_groups_filter [of "[]" es] by (simp add: format_zig_array_def)

lemma format_no_prefix:
  assumes "\<forall>e\<in>set es. \<not> prefix prefix_src e"
  shows "format_zig_array es = helper_only_block"
proof -
  from assms have "filter (prefix prefix_src) es = []" by (simp add: filter_empty_conv)
  then have "format_zig_array es = format_zig_array []"
    using format_drops_foreign [of es] by simp
  also have "\<dots> = helper_only_block" by code_simp
  finally show ?thesis .
qed

lemma rglob_c_paths:
  "p \<in> set (rglob_c w r) \<Longrightarrow> is_abs p = is_abs r \<and> prefix (parts r) (parts p)"
  by (auto simp: rglob_c_def split: option.splits)

lemma entry_of_foreign:
  assumes "is_abs p" and "\<not> prefix REPO_ROOT (parts p)"
  shows "entry_of REPO_ROOT p = replace_char backslash slash (''/'' @ join ''/'' (parts p))"
  using assms by (simp add: entry_of_def relative_to_def str_path_def)

lemma main_printed_first:
  "find_c_files REPO_ROOT w (source_root_of (root a)) = Inr es
     \<Longrightarrow> take 1 (printed (main REPO_ROOT tmpl flt a w)) = [format_zig_array es]"
  by (auto simp: main_def Let_def try_patch_def split: sum.splits prod.splits if_splits)

text \<open>
  C10, as the code has it. \<open>format_zig_array\<close> drops every entry that does not start with
  \<open>native/flecs/src/\<close>. When \<open>--root\<close> is absolute and its source directory
  \<open>root/native/flecs/src\<close> is neither inside the repository of the script nor an ancestor
  of it, \<open>relative_to\<close> fails for every path found, every entry is the whole absolute path,
  none has the prefix, and the rendered block, which \<open>main\<close> prints first, is the header,
  the helper entry, a blank line and the closing delimiter.
\<close>

theorem foreign_root_renders_helper_only:
  assumes ab: "is_abs (root a)"
    and out1: "\<not> prefix REPO_ROOT (parts (source_root_of (root a)))"
    and out2: "\<not> prefix (parts (source_root_of (root a))) REPO_ROOT"
    and src: "path_exists w (source_root_of (root a))"
  shows "(\<forall>es'. format_zig_array es' = format_zig_array (filter (prefix prefix_src) es'))
       \<and> (\<exists>es. find_c_files REPO_ROOT w (source_root_of (root a)) = Inr es
             \<and> (\<forall>e\<in>set es. prefix ''/'' e \<and> \<not> prefix prefix_src e)
             \<and> format_zig_array es = helper_only_block)
       \<and> take 1 (printed (main REPO_ROOT tmpl flt a w)) = [helper_only_block]"
proof -
  let ?S = "source_root_of (root a)"
  from find_c_files_exists [OF src] obtain es
    where fc: "find_c_files REPO_ROOT w ?S = Inr es" by blast
  have absS: "is_abs ?S" using ab by (simp add: source_root_of_def child_def)
  have ent: "prefix ''/'' e \<and> \<not> prefix prefix_src e" if "e \<in> set es" for e
  proof -
    from that fc obtain p where p: "p \<in> set (rglob_c w ?S)" and e: "e = entry_of REPO_ROOT p"
      by (auto simp: find_c_files_def split: if_splits)
    from rglob_c_paths [OF p] absS have pa: "is_abs p" and pp: "prefix (parts ?S) (parts p)"
      by simp_all
    have "\<not> prefix REPO_ROOT (parts p)"
    proof
      assume "prefix REPO_ROOT (parts p)"
      with pp have "prefix REPO_ROOT (parts ?S) \<or> prefix (parts ?S) REPO_ROOT"
        using prefix_same_cases by blast
      with out1 out2 show False by blast
    qed
    with pa e have "e = replace_char backslash slash (''/'' @ join ''/'' (parts p))"
      by (simp add: entry_of_foreign)
    then show ?thesis
      by (simp add: replace_char_def backslash_def slash_def prefix_src_def)
  qed
  then have blk: "format_zig_array es = helper_only_block"
    by (intro format_no_prefix) blast
  show ?thesis
    using fc ent blk main_printed_first [OF fc, of tmpl flt] format_drops_foreign by auto
qed

text \<open>
  The theorem at the sample world, the script living in \<open>/elsewhere\<close>.
\<close>

theorem foreign_root_renders_helper_only_witness:
  "find_c_files [''elsewhere''] (sample_world []) (source_root_of (root sample_args))
     = Inr [''/repo/native/flecs/src/a.c'']
   \<and> take 1 (printed (main [''elsewhere''] tmpl_reject no_faults sample_args (sample_world [])))
     = [helper_only_block]"
proof -
  have h1: "is_abs (root sample_args)" by code_simp
  have h2: "\<not> prefix [''elsewhere''] (parts (source_root_of (root sample_args)))" by code_simp
  have h3: "\<not> prefix (parts (source_root_of (root sample_args))) [''elsewhere'']" by code_simp
  have h4: "path_exists (sample_world []) (source_root_of (root sample_args))" by code_simp
  have "find_c_files [''elsewhere''] (sample_world []) (source_root_of (root sample_args))
     = Inr [''/repo/native/flecs/src/a.c'']" by code_simp
  with foreign_root_renders_helper_only [OF h1 h2 h3 h4, of tmpl_reject no_faults]
  show ?thesis by simp
qed

text \<open>
  C10 as stated holds of every \<open>--root\<close> outside the repository of the script. With the
  script in \<open>/elsewhere\<close>, the working directory \<open>/repo\<close> and \<open>--root .\<close>, the root is
  outside the repository, \<open>relative_to\<close> fails, and the entry kept is the relative path
  \<open>native/flecs/src/a.c\<close>, which has the prefix: the block has a group.
\<close>

theorem relative_root_keeps_prefix:
  "\<not> prefix [''elsewhere''] (resolve (sample_world []) (Path False []))
   \<and> find_c_files [''elsewhere''] (sample_world []) (source_root_of (Path False []))
       = Inr [''native/flecs/src/a.c'']
   \<and> printed (main [''elsewhere''] tmpl_reject no_faults \<lparr>root = Path False [], apply_flag = False\<rparr>
        (sample_world []))
       = [format_zig_array [''native/flecs/src/a.c'']]
   \<and> format_zig_array [''native/flecs/src/a.c''] \<noteq> helper_only_block"
  by code_simp

section \<open>What discovery returns\<close>

lemma walk_nonempty: "rel \<in> set (walk n) \<Longrightarrow> rel \<noteq> []"
  by (cases n) auto

lemma walk_Dir_mem:
  "rel \<in> set (walk (Dir kids)) \<longleftrightarrow>
     (\<exists>k\<in>set kids. (matches_c (fst k) \<and> rel = [fst k])
        \<or> (\<exists>r\<in>set (walk (snd k)). rel = fst k # r))"
  by auto

lemma walk_mem:
  "wf_node n \<Longrightarrow>
   rel \<in> set (walk n) \<longleftrightarrow> rel \<noteq> [] \<and> lookup n rel \<noteq> None \<and> matches_c (last rel)"
proof (induction n arbitrary: rel)
  case (File c)
  then show ?case by (cases rel) auto
next
  case (Dir kids)
  have dist: "distinct (map fst kids)" and wfk: "\<And>k. k \<in> set kids \<Longrightarrow> wf_node (snd k)"
    using Dir.prems by auto
  have IH: "r \<in> set (walk (snd k)) \<longleftrightarrow> r \<noteq> [] \<and> lookup (snd k) r \<noteq> None \<and> matches_c (last r)"
    if "k \<in> set kids" for k r
    using Dir.IH [of k "snd k" r] that wfk [OF that] by (cases k) auto
  have mo: "map_of kids x = Some t \<longleftrightarrow> (x, t) \<in> set kids" for x t
    using dist by auto
  show ?case
  proof (cases rel)
    case Nil
    then show ?thesis using walk_nonempty [of "[]" "Dir kids"] by auto
  next
    case (Cons x xs)
    show ?thesis
    proof (cases "xs = []")
      case True
      have "rel \<in> set (walk (Dir kids)) \<longleftrightarrow> (\<exists>k\<in>set kids. matches_c (fst k) \<and> x = fst k)"
        unfolding walk_Dir_mem using Cons True walk_nonempty by auto
      also have "\<dots> \<longleftrightarrow> (\<exists>t. (x, t) \<in> set kids) \<and> matches_c x" by force
      also have "\<dots> \<longleftrightarrow> lookup (Dir kids) rel \<noteq> None \<and> matches_c (last rel)"
        using Cons True by (auto simp: mo [symmetric] split: option.splits)
      finally show ?thesis using Cons by simp
    next
      case False
      have "rel \<in> set (walk (Dir kids)) \<longleftrightarrow> (\<exists>k\<in>set kids. x = fst k \<and> xs \<in> set (walk (snd k)))"
        unfolding walk_Dir_mem using Cons False by auto
      also have "\<dots> \<longleftrightarrow> (\<exists>k\<in>set kids. x = fst k \<and> lookup (snd k) xs \<noteq> None \<and> matches_c (last xs))"
        using IH False by auto
      also have "\<dots> \<longleftrightarrow> (\<exists>t. (x, t) \<in> set kids \<and> lookup t xs \<noteq> None) \<and> matches_c (last xs)"
        by force
      also have "\<dots> \<longleftrightarrow> lookup (Dir kids) rel \<noteq> None \<and> matches_c (last rel)"
        using Cons False by (auto simp: mo [symmetric] split: option.splits)
      finally show ?thesis using Cons by simp
    qed
  qed
qed

lemma c_names_are_files:
  "no_c_dirs n \<Longrightarrow> rel \<noteq> [] \<Longrightarrow> lookup n rel = Some k \<Longrightarrow> matches_c (last rel) \<Longrightarrow> is_file k"
proof (induction rel arbitrary: n)
  case Nil
  then show ?case by simp
next
  case (Cons x xs)
  show ?case
  proof (cases n)
    case (File c)
    with Cons.prems show ?thesis by simp
  next
    case (Dir kids)
    with Cons.prems obtain t where t: "map_of kids x = Some t" and l: "lookup t xs = Some k"
      by (auto split: option.splits)
    from t have mem: "(x, t) \<in> set kids" by (rule map_of_SomeD)
    with Cons.prems(1) Dir have a: "matches_c x \<longrightarrow> is_file t" and b: "no_c_dirs t"
      by force+
    show ?thesis
    proof (cases "xs = []")
      case True
      with l a Cons.prems(4) show ?thesis by simp
    next
      case False
      with Cons.IH [OF b False l] Cons.prems(4) show ?thesis by simp
    qed
  qed
qed

lemma distinct_below:
  "distinct (map fst ks) \<Longrightarrow> \<forall>k\<in>set ks. distinct (walk (snd k))
     \<Longrightarrow> distinct (concat (map (\<lambda>k. map ((#) (fst k)) (walk (snd k))) ks))"
proof (induction ks)
  case Nil
  then show ?case by simp
next
  case (Cons k ks)
  have "distinct (map ((#) (fst k)) (walk (snd k)))"
    using Cons.prems by (simp add: distinct_map)
  moreover have "distinct (concat (map (\<lambda>k. map ((#) (fst k)) (walk (snd k))) ks))"
    using Cons by simp
  moreover have "set (map ((#) (fst k)) (walk (snd k)))
      \<inter> set (concat (map (\<lambda>k. map ((#) (fst k)) (walk (snd k))) ks)) = {}"
    using Cons.prems(1) by force
  ultimately show ?case by simp
qed

lemma walk_distinct: "wf_node n \<Longrightarrow> distinct (walk n)"
proof (induction n)
  case (File c)
  then show ?case by simp
next
  case (Dir kids)
  have dist: "distinct (map fst kids)" and wfk: "\<And>k. k \<in> set kids \<Longrightarrow> wf_node (snd k)"
    using Dir.prems by auto
  have dk: "\<forall>k\<in>set kids. distinct (walk (snd k))"
  proof
    fix k assume k: "k \<in> set kids"
    with Dir.IH [of k "snd k"] wfk [OF k] show "distinct (walk (snd k))" by (cases k) auto
  qed
  let ?A = "map (\<lambda>k. [fst k]) (filter (\<lambda>k. matches_c (fst k)) kids)"
  let ?B = "concat (map (\<lambda>k. map ((#) (fst k)) (walk (snd k))) kids)"
  have "distinct (map fst (filter (\<lambda>k. matches_c (fst k)) kids))"
    using dist by (rule distinct_map_filter)
  then have "distinct (map (\<lambda>x. [x]) (map fst (filter (\<lambda>k. matches_c (fst k)) kids)))"
    by (simp add: distinct_map inj_on_def)
  then have a: "distinct ?A" by (simp add: comp_def)
  have b: "distinct ?B" using dist dk by (rule distinct_below)
  have "set ?A \<inter> set ?B = {}" using walk_nonempty by fastforce
  with a b show ?case by simp
qed

lemma insort_key_parts:
  "insort_key parts (Path b x) (map (Path b) ys) = map (Path b) (insort x ys)"
  by (induction ys) simp_all

lemma sort_key_parts: "sort_key parts (map (Path b) xs) = map (Path b) (sort xs)"
  by (induction xs) (simp_all add: insort_key_parts)

lemma rglob_c_eq:
  "lookup (tree w) (resolve w r) = Some n
     \<Longrightarrow> rglob_c w r = map (Path (is_abs r)) (map ((@) (parts r)) (walk n))"
  by (simp add: rglob_c_def)

lemma entry_of_cases:
  "entry_of REPO_ROOT p = replace_char backslash slash (str_path
     (if is_abs p \<and> prefix REPO_ROOT (parts p)
      then Path False (drop (length REPO_ROOT) (parts p)) else p))"
  by (simp add: entry_of_def relative_to_def)

text \<open>
  What discovery does return. Let the source root exist, with distinct names in every
  directory below it and no directory whose name ends in \<open>.c\<close>. Then \<open>find_c_files\<close>
  returns the entries of a list \<open>ps\<close> of paths that is sorted by components, has no
  duplicate, and holds exactly the paths of the files at any depth below the root whose name
  ends in \<open>.c\<close>. The entry of a path is the path relative to \<open>REPO_ROOT\<close> when the path is
  absolute and below \<open>REPO_ROOT\<close>, and the whole path otherwise, with every backslash
  replaced by a slash.
\<close>

lemma find_c_files_lists_c_files:
  assumes look: "lookup (tree w) (resolve w r) = Some n"
    and wf: "wf_node n"
    and nd: "no_c_dirs n"
  shows "\<exists>ps. find_c_files REPO_ROOT w r = Inr (map (entry_of REPO_ROOT) ps)
           \<and> sorted (map parts ps) \<and> distinct ps
           \<and> set ps = {Path (is_abs r) (parts r @ rel) | rel c.
                 rel \<noteq> [] \<and> lookup n rel = Some (File c) \<and> suffix ''.c'' (last rel)}
           \<and> (\<forall>p. entry_of REPO_ROOT p = replace_char backslash slash (str_path
                 (if is_abs p \<and> prefix REPO_ROOT (parts p)
                  then Path False (drop (length REPO_ROOT) (parts p)) else p)))"
proof -
  let ?rels = "sort (map ((@) (parts r)) (walk n))"
  let ?ps = "map (Path (is_abs r)) ?rels"
  have ex: "path_exists w r" using look by (simp add: path_exists_def)
  have sk: "sort_key parts (rglob_c w r) = ?ps"
    by (simp only: rglob_c_eq [OF look] sort_key_parts)
  have fc: "find_c_files REPO_ROOT w r = Inr (map (entry_of REPO_ROOT) ?ps)"
    using ex sk by (simp add: find_c_files_def)
  have "map parts ?ps = ?rels" by (simp add: comp_def)
  then have so: "sorted (map parts ?ps)" by simp
  have "distinct (map ((@) (parts r)) (walk n))"
    using walk_distinct [OF wf] by (simp add: distinct_map inj_on_def)
  then have di: "distinct ?ps" by (simp add: distinct_map inj_on_def)
  have files: "rel \<in> set (walk n) \<longleftrightarrow>
      rel \<noteq> [] \<and> (\<exists>c. lookup n rel = Some (File c)) \<and> suffix ''.c'' (last rel)" for rel
  proof
    assume m: "rel \<in> set (walk n)"
    with walk_mem [OF wf] obtain k where k: "rel \<noteq> []" "lookup n rel = Some k" "matches_c (last rel)"
      by auto
    from c_names_are_files [OF nd k] obtain c where "k = File c" by (cases k) auto
    with k show "rel \<noteq> [] \<and> (\<exists>c. lookup n rel = Some (File c)) \<and> suffix ''.c'' (last rel)"
      by (auto simp: matches_c_def)
  next
    assume "rel \<noteq> [] \<and> (\<exists>c. lookup n rel = Some (File c)) \<and> suffix ''.c'' (last rel)"
    then show "rel \<in> set (walk n)" using walk_mem [OF wf] by (auto simp: matches_c_def)
  qed
  have se: "set ?ps = {Path (is_abs r) (parts r @ rel) | rel c.
      rel \<noteq> [] \<and> lookup n rel = Some (File c) \<and> suffix ''.c'' (last rel)}"
    using files by auto
  show ?thesis
    using fc so di se entry_of_cases by blast
qed

text \<open>
  C4 says that the paths returned are relative to the project root, and that they are the
  files. With the script in \<open>/elsewhere\<close> and \<open>--root /repo\<close>, the file
  \<open>/repo/native/flecs/src/a.c\<close> is returned as its absolute path, not as
  \<open>native/flecs/src/a.c\<close>: the path is made relative to the repository of the script, not to
  the root given. And a directory \<open>d.c\<close> below the source root is returned like a file.
\<close>

theorem find_c_files_keeps_foreign_paths:
  "path_exists (sample_world []) (source_root_of (Path True [''repo'']))
   \<and> find_c_files [''elsewhere''] (sample_world []) (source_root_of (Path True [''repo'']))
       = Inr [''/repo/native/flecs/src/a.c'']
   \<and> find_c_files [''repo''] (sample_world []) (source_root_of (Path True [''repo'']))
       = Inr [''native/flecs/src/a.c'']
   \<and> lookup (tree (listing_world [(''d.c'', Dir [])]))
         [''repo'', ''native'', ''flecs'', ''src'', ''d.c''] = Some (Dir [])
   \<and> find_c_files [''repo''] (listing_world [(''d.c'', Dir [])])
         (source_root_of (Path True [''repo'']))
       = Inr [''native/flecs/src/d.c'']"
  by code_simp

lemma list_all2_map_of:
  "list_all2 (\<lambda>k k'. fst k = fst k' \<and> R (snd k) (snd k')) xs ys
     \<Longrightarrow> rel_option R (map_of xs x) (map_of ys x)"
  by (induction xs ys rule: list_all2_induct) auto

lemma list_all2_same_names:
  "list_all2 (\<lambda>k k'. fst k = fst k' \<and> R (snd k) (snd k')) xs ys \<Longrightarrow> map fst xs = map fst ys"
  by (induction xs ys rule: list_all2_induct) auto

lemma map_of_mset:
  assumes "mset xs = mset ys" and "distinct (map fst xs)"
  shows "map_of xs = map_of ys"
proof -
  from assms(1) have "mset (map fst xs) = mset (map fst ys)" by simp
  with assms(2) have "distinct (map fst ys)" by (metis mset_eq_imp_distinct_iff)
  moreover from assms(1) have "set xs = set ys" by (rule mset_eq_setD)
  ultimately show ?thesis using assms(2) by (simp add: map_of_inject_set)
qed

lemma same_tree_lookup:
  "same_tree t t' \<Longrightarrow> rel_option same_tree (lookup t ps) (lookup t' ps)"
proof (induction ps arbitrary: t t')
  case Nil
  then show ?case by simp
next
  case (Cons x xs)
  from Cons.prems show ?case
  proof (cases rule: same_tree.cases)
    case (same_File c)
    then show ?thesis by simp
  next
    case (same_Dir kids kids1 kids')
    have names: "map fst kids = map fst kids1" using same_Dir(3) by (rule list_all2_same_names)
    with same_Dir(5) have "distinct (map fst kids1)" by simp
    with same_Dir(4) have eq: "map_of kids1 = map_of kids'" by (rule map_of_mset)
    from list_all2_map_of [OF same_Dir(3), of x]
    have "rel_option same_tree (map_of kids x) (map_of kids' x)" using eq by simp
    then show ?thesis
      using same_Dir(1,2) Cons.IH by (auto elim!: option.rel_cases)
  qed
qed

lemma walk_below_mset:
  "list_all2 (\<lambda>k k'. fst k = fst k' \<and> mset (walk (snd k)) = mset (walk (snd k'))) xs ys
    \<Longrightarrow> mset (walk (Dir xs)) = mset (walk (Dir ys))"
  by (induction xs ys rule: list_all2_induct) auto

lemma walk_perm_mset:
  assumes "mset xs = mset ys"
  shows "mset (walk (Dir xs)) = mset (walk (Dir ys))"
proof -
  have "mset (walk (Dir zs))
      = image_mset (\<lambda>k. [fst k]) (filter_mset (\<lambda>k. matches_c (fst k)) (mset zs))
        + (\<Sum>k\<in>#mset zs. mset (map ((#) (fst k)) (walk (snd k))))" for zs
    by (induction zs) simp_all
  with assms show ?thesis by simp
qed

lemma same_tree_walk: "same_tree t t' \<Longrightarrow> mset (walk t) = mset (walk t')"
proof (induction rule: same_tree.induct)
  case (same_File c)
  then show ?case by simp
next
  case (same_Dir kids kids1 kids')
  from same_Dir(1)
  have "list_all2 (\<lambda>k k'. fst k = fst k' \<and> mset (walk (snd k)) = mset (walk (snd k'))) kids kids1"
    by (rule list_all2_mono) simp
  then have "mset (walk (Dir kids)) = mset (walk (Dir kids1))" by (rule walk_below_mset)
  also have "\<dots> = mset (walk (Dir kids'))" using same_Dir(2) by (rule walk_perm_mset)
  finally show ?case .
qed

section \<open>Discovery and rendering do not depend on the order of the listings\<close>

lemma find_c_files_same_tree:
  assumes st: "same_tree (tree w) (tree w')" and cw: "cwd w = cwd w'"
  shows "find_c_files REPO_ROOT w r = find_c_files REPO_ROOT w' r"
proof -
  have rs: "resolve w' r = resolve w r" using cw by (simp add: resolve_def)
  from same_tree_lookup [OF st, of "resolve w r"]
  show ?thesis
  proof (cases rule: option.rel_cases)
    case None
    then show ?thesis using rs by (simp add: find_c_files_def path_exists_def)
  next
    case (Some n n')
    from Some(3) have "mset (walk n) = mset (walk n')" by (rule same_tree_walk)
    then have "mset (map ((@) (parts r)) (walk n)) = mset (map ((@) (parts r)) (walk n'))"
      by simp
    then have "sort (map ((@) (parts r)) (walk n)) = sort (map ((@) (parts r)) (walk n'))"
      by (rule sort_mset_cong)
    moreover have "sort_key parts (rglob_c w r)
        = map (Path (is_abs r)) (sort (map ((@) (parts r)) (walk n)))"
      by (simp only: rglob_c_eq [OF Some(1)] sort_key_parts)
    moreover have "lookup (tree w') (resolve w' r) = Some n'" using Some(2) rs by simp
    then have "sort_key parts (rglob_c w' r)
        = map (Path (is_abs r)) (sort (map ((@) (parts r)) (walk n')))"
      by (simp only: rglob_c_eq sort_key_parts)
    ultimately show ?thesis
      using Some(1,2) rs by (simp add: find_c_files_def path_exists_def)
  qed
qed

text \<open>
  C9. The model is a function of the world, so a second run on the same world gives the same
  output. What a run cannot fix is the order in which the operating system lists a
  directory. Two runs without \<open>--apply\<close> over the same directory tree, whatever the order
  of the listings and whatever the failures given to each run, discover the same entries,
  end with the same result and print the same text; and what a run prints is
  \<open>format_zig_array\<close> of the entries discovered and nothing else.
\<close>

theorem render_deterministic:
  assumes st: "same_tree (tree w) (tree w')" and cw: "cwd w = cwd w'" and na: "\<not> apply_flag a"
  shows "find_c_files REPO_ROOT w (source_root_of (root a))
           = find_c_files REPO_ROOT w' (source_root_of (root a))
       \<and> result (main REPO_ROOT tmpl flt a w) = result (main REPO_ROOT tmpl' flt' a w')
       \<and> printed (main REPO_ROOT tmpl flt a w) = printed (main REPO_ROOT tmpl' flt' a w')
       \<and> (\<forall>es. find_c_files REPO_ROOT w (source_root_of (root a)) = Inr es
             \<longrightarrow> printed (main REPO_ROOT tmpl flt a w) = [format_zig_array es])"
  using find_c_files_same_tree [OF st cw, of REPO_ROOT "source_root_of (root a)"] na
  by (simp add: main_def Let_def split: sum.splits)

lemma same_tree_single: "same_tree t t' \<Longrightarrow> same_tree (Dir [(x, t)]) (Dir [(x, t')])"
  by (rule same_Dir [where ?kids1.0 = "[(x, t')]"]) simp_all

lemma same_tree_swap:
  "x \<noteq> y \<Longrightarrow> same_tree (Dir [(x, File a), (y, File b)]) (Dir [(y, File b), (x, File a)])"
  by (rule same_Dir [where ?kids1.0 = "[(x, File a), (y, File b)]"]) (simp_all add: same_File)

text \<open>
  The theorem on a source directory listed as \<open>b.c\<close>, \<open>a.c\<close> and as \<open>a.c\<close>, \<open>b.c\<close>.
\<close>

theorem render_deterministic_witness:
  "printed (main [''repo''] tmpl_reject no_faults print_args
       (listing_world [(''b.c'', File []), (''a.c'', File [])]))
     = printed (main [''repo''] tmpl_reject no_faults print_args
       (listing_world [(''a.c'', File []), (''b.c'', File [])]))
   \<and> printed (main [''repo''] tmpl_reject no_faults print_args
       (listing_world [(''a.c'', File []), (''b.c'', File [])]))
     = [format_zig_array [''native/flecs/src/a.c'', ''native/flecs/src/b.c'']]"
proof -
  have "''b.c'' \<noteq> ''a.c''" by simp
  then have h1: "same_tree (tree (listing_world [(''b.c'', File []), (''a.c'', File [])]))
      (tree (listing_world [(''a.c'', File []), (''b.c'', File [])]))"
    unfolding listing_world_def world.simps
    by (intro same_tree_single same_tree_swap)
  have h2: "cwd (listing_world [(''b.c'', File []), (''a.c'', File [])])
      = cwd (listing_world [(''a.c'', File []), (''b.c'', File [])])"
    by (simp add: listing_world_def)
  have h3: "\<not> apply_flag print_args" by (simp add: print_args_def)
  have "printed (main [''repo''] tmpl_reject no_faults print_args
       (listing_world [(''a.c'', File []), (''b.c'', File [])]))
     = [format_zig_array [''native/flecs/src/a.c'', ''native/flecs/src/b.c'']]"
    by code_simp
  with render_deterministic [OF h1 h2 h3, of "[''repo'']" tmpl_reject no_faults tmpl_reject no_faults]
  show ?thesis by simp
qed

end
